theory Spec2Isabelle
  imports Main "HOL-Library.Word" "HOL-Library.Monad_Syntax"
begin

section \<open>AppNVM flash translation layer core (app\_core.c)\<close>

text \<open>
  A shallow embedding of \<^verbatim>\<open>hw/block/ox-ctrl/ftl/appnvm/app_core.c\<close>.

  Conventions of the embedding.
  \<^item> Every function returns an \<open>option\<close>. \<open>None\<close> stands for a run with no defined
    result in C: an access outside an array or buffer, a read of a pointer that was
    never assigned, a dereference of \<open>NULL\<close>, a \<open>free\<close> of a block that is not
    allocated, or (for the recency scan only) a loop that never exits.
  \<^item> The structure declarations live in headers that are not part of the sources at
    hand (\<^verbatim>\<open>ssd.h\<close>, \<^verbatim>\<open>appnvm.h\<close>). Geometry fields, address fields and sizes are
    therefore natural numbers: the widths of those fields are unknown and every value
    is taken to fit its field.
  \<^item> A pointer into the I/O buffer \<^verbatim>\<open>io->buf\<close> is the byte offset from the start of
    that buffer.
  \<^item> The collaborators that the file calls but does not define (the media manager's
    \<^verbatim>\<open>nvm_submit_sync_io\<close>, the allocator, the registered flush function, the
    constants \<^verbatim>\<open>EMEM\<close> and \<^verbatim>\<open>APP_MAGIC\<close>) are fields of an environment record
    \<open>env\<close> that every function takes.
\<close>

subsection \<open>Geometry, channels, addresses\<close>

type_synonym byte = "8 word"
type_synonym addr = nat

record nvm_mmgr_geometry =
  n_of_planes :: nat
  pg_size :: nat
  sec_size :: nat
  sec_per_pg :: nat
  sec_oob_sz :: nat
  sec_per_pl_pg :: nat
  pg_per_blk :: nat
  blk_per_lun :: nat

record nvm_channel =
  ch_mmgr_id :: nat
  geometry :: nvm_mmgr_geometry

text \<open>\<^verbatim>\<open>struct app_channel\<close>: the pointer \<^verbatim>\<open>lch->ch\<close> (\<open>None\<close> is \<open>NULL\<close>) and the
  byte table \<^verbatim>\<open>lch->bbtbl->tbl\<close>.\<close>

record app_channel =
  ch :: "nvm_channel option"
  bbtbl :: "byte list"

text \<open>\<^verbatim>\<open>struct nvm_ppa_addr\<close>, the fields \<^verbatim>\<open>g.ch\<close>, \<^verbatim>\<open>g.lun\<close>, \<^verbatim>\<open>g.blk\<close>, \<^verbatim>\<open>g.pl\<close>,
  \<^verbatim>\<open>g.pg\<close> that the file reads and writes.\<close>

record nvm_ppa_addr =
  g_ch :: nat
  g_lun :: nat
  g_blk :: nat
  g_pl :: nat
  g_pg :: nat

datatype cmdtype = MMGR_READ_PG | MMGR_WRITE_PG | MMGR_ERASE_BLK

datatype direction = APP_TRANS_FROM_NVM | APP_TRANS_TO_NVM | APP_TRANS_OTHER

datatype io_type = APP_IO_NORMAL | APP_IO_RESERVED | APP_IO_OTHER

subsection \<open>The world outside the file\<close>

text \<open>The allocator: \<open>h_count\<close> counts the allocation requests made so far, \<open>h_live\<close>
  lists the blocks that are allocated (the most recent first), \<open>h_log\<close> is the sequence
  of successful \<^verbatim>\<open>malloc\<close>/\<^verbatim>\<open>calloc\<close> and \<^verbatim>\<open>free\<close> calls in program order.\<close>

datatype hevent = Malloc addr | Free addr

record heap =
  h_count :: nat
  h_live :: "addr list"
  h_log :: "hevent list"

text \<open>One call of \<^verbatim>\<open>nvm_submit_sync_io\<close>, with the status it returned.\<close>

record mmgr_call =
  call_ch :: nvm_channel
  call_ppa :: nvm_ppa_addr
  call_buf :: "nat option"
  call_type :: cmdtype
  call_ret :: int

record 'm world =
  heap :: heap
  media :: 'm
  issued :: "mmgr_call list"
  channels :: "nat \<Rightarrow> app_channel option"
  flushed :: "app_channel list"

text \<open>The environment.
  \<^item> \<open>submit m c cmd buf t mem\<close> is the media manager: in media state \<open>m\<close>, on channel
    \<open>c\<close>, the command of type \<open>t\<close> for the physical address \<open>cmd\<close>, with the data pointer
    \<open>buf\<close> (\<open>None\<close> is \<open>NULL\<close>) into the I/O buffer \<open>mem\<close>. It returns the status, the
    I/O buffer and the media state.
  \<^item> \<open>alloc_fails n\<close> says whether allocation request number \<open>n\<close> returns \<open>NULL\<close>.
  \<^item> \<open>EMEM\<close> is the constant of that name.
  \<^item> \<open>magic_sz\<close> is \<^verbatim>\<open>sizeof (struct app_magic)\<close>; \<open>is_magic bs\<close> says whether the
    record stored in the bytes \<open>bs\<close> has \<^verbatim>\<open>magic == APP_MAGIC\<close>.
  \<^item> \<open>flush_fn\<close> is \<^verbatim>\<open>appnvm()->bbt.flush_fn\<close>: it sees the channel and the media
    and returns a status and the media.\<close>

record 'm env =
  submit :: "'m \<Rightarrow> nvm_channel \<Rightarrow> nvm_ppa_addr \<Rightarrow> nat option \<Rightarrow> cmdtype \<Rightarrow> byte list
               \<Rightarrow> int \<times> byte list \<times> 'm"
  alloc_fails :: "nat \<Rightarrow> bool"
  EMEM :: int
  magic_sz :: nat
  is_magic :: "byte list \<Rightarrow> bool"
  flush_fn :: "app_channel \<Rightarrow> 'm \<Rightarrow> int \<times> 'm"

definition malloc :: "'m env \<Rightarrow> 'm world \<Rightarrow> addr option \<times> 'm world" where
  "malloc env w =
     (let h = heap w; n = h_count h in
      if alloc_fails env n then (None, w\<lparr>heap := h\<lparr>h_count := Suc n\<rparr>\<rparr>)
      else (Some (Suc n),
            w\<lparr>heap := h\<lparr>h_count := Suc n, h_live := Suc n # h_live h,
                         h_log := h_log h @ [Malloc (Suc n)]\<rparr>\<rparr>))"

definition free :: "addr \<Rightarrow> 'm world \<Rightarrow> 'm world option" where
  "free a w =
     (let h = heap w in
      if a \<in> set (h_live h)
      then Some (w\<lparr>heap := h\<lparr>h_live := remove1 a (h_live h), h_log := h_log h @ [Free a]\<rparr>\<rparr>)
      else None)"

definition nvm_submit_sync_io ::
  "'m env \<Rightarrow> nvm_channel \<Rightarrow> nvm_ppa_addr \<Rightarrow> nat option \<Rightarrow> cmdtype \<Rightarrow> byte list \<times> 'm world
     \<Rightarrow> int \<times> byte list \<times> 'm world" where
  "nvm_submit_sync_io env c cmd b t s =
     (case s of (mem, w) \<Rightarrow>
        (case submit env (media w) c cmd b t mem of (r, mem', m') \<Rightarrow>
           (r, mem', w\<lparr>media := m',
                       issued := issued w @ [\<lparr>call_ch = c, call_ppa = cmd, call_buf = b,
                                               call_type = t, call_ret = r\<rparr>]\<rparr>)))"

subsection \<open>Memory\<close>

text \<open>\<open>memrd m off n\<close> reads \<open>n\<close> bytes at offset \<open>off\<close>; \<open>memwr m off bs\<close> writes the
  bytes \<open>bs\<close> there. A transfer of no bytes touches nothing. \<open>rd\<close> and \<open>wr\<close> read and
  write one slot of an array of pointers; a slot holds \<open>None\<close> until it is assigned.\<close>

definition memrd :: "byte list \<Rightarrow> nat \<Rightarrow> nat \<Rightarrow> byte list option" where
  "memrd m off n =
     (if n = 0 then Some []
      else if off + n \<le> length m then Some (take n (drop off m)) else None)"

definition memwr :: "byte list \<Rightarrow> nat \<Rightarrow> byte list \<Rightarrow> byte list option" where
  "memwr m off bs =
     (if bs = [] then Some m
      else if off + length bs \<le> length m
           then Some (take off m @ bs @ drop (off + length bs) m) else None)"

definition memset0 :: "byte list \<Rightarrow> nat \<Rightarrow> byte list option" where
  "memset0 m n = memwr m 0 (replicate n 0)"

definition rd :: "'a option list \<Rightarrow> nat \<Rightarrow> 'a option" where
  "rd xs i = (if i < length xs then xs ! i else None)"

definition wr :: "'a option list \<Rightarrow> nat \<Rightarrow> 'a \<Rightarrow> 'a option list option" where
  "wr xs i v = (if i < length xs then Some (xs[i := Some v]) else None)"

subsection \<open>The geometry-aware I/O buffer\<close>

text \<open>\<^verbatim>\<open>struct app_io_data\<close>. A pointer to a block the descriptor owns is two fields: the
  block's address (\<open>data_p\<close> for the descriptor itself, \<open>buf_p\<close>, \<open>pl_vec_p\<close>,
  \<open>oob_vec_p\<close>, \<open>sec_vec_p\<close>) and the block's contents. A slot of \<open>sec_vec\<close> holds the
  address and the contents of one per-plane array.\<close>

record app_io_data =
  data_p :: addr
  io_lch :: app_channel
  io_ch :: "nvm_channel option"
  n_pl :: nat
  pg_sz :: nat
  meta_sz :: nat
  buf_sz :: nat
  buf_p :: addr
  buf :: "byte list"
  pl_vec_p :: addr
  pl_vec :: "nat option list"
  oob_vec_p :: addr
  oob_vec :: "nat option list"
  sec_vec_p :: addr
  sec_vec :: "(addr \<times> nat option list) option list"

text \<open>\<^verbatim>\<open>app_pg_io_prepare\<close>: the inner loop over the sectors of plane \<open>pl\<close>, then the
  loop over the planes.\<close>

function prepare_sec ::
  "nvm_mmgr_geometry \<Rightarrow> nat \<Rightarrow> nat \<Rightarrow> app_io_data \<Rightarrow> app_io_data option" where
  "prepare_sec g pl sec data =
     (if sec < sec_per_pg g then do {
        p \<leftarrow> rd (pl_vec data) pl;
        ov \<leftarrow> wr (oob_vec data) (sec_per_pg g * pl + sec) (p + pg_sz data + sec_oob_sz g * sec);
        (a, row) \<leftarrow> rd (sec_vec data) pl;
        row' \<leftarrow> wr row sec (p + sec_size g * sec);
        sv \<leftarrow> wr (sec_vec data) pl (a, row');
        prepare_sec g pl (Suc sec) (data\<lparr>oob_vec := ov, sec_vec := sv\<rparr>)
      } else Some data)"
  by pat_completeness auto
termination
  by (relation "measure (\<lambda>(g, pl, sec, data). sec_per_pg g - sec)") auto

function prepare_pl :: "nvm_mmgr_geometry \<Rightarrow> nat \<Rightarrow> app_io_data \<Rightarrow> app_io_data option" where
  "prepare_pl g pl data =
     (if pl < n_pl data then do {
        pv \<leftarrow> wr (pl_vec data) pl (pl * (buf_sz data div n_pl data));
        d1 \<leftarrow> prepare_sec g pl 0 (data\<lparr>pl_vec := pv\<rparr>);
        p \<leftarrow> rd (oob_vec d1) (sec_per_pg g * pl);
        (a, row) \<leftarrow> rd (sec_vec d1) pl;
        row' \<leftarrow> wr row (sec_per_pg g) p;
        sv \<leftarrow> wr (sec_vec d1) pl (a, row');
        prepare_pl g (Suc pl) (d1\<lparr>sec_vec := sv\<rparr>)
      } else Some data)"
  by pat_completeness auto

declare prepare_sec.simps [simp del]

lemma prepare_sec_n_pl: "prepare_sec g pl sec data = Some d \<Longrightarrow> n_pl d = n_pl data"
proof (induction g pl sec data rule: prepare_sec.induct)
  case (1 g pl sec data)
  show ?case
  proof (cases "sec < sec_per_pg g")
    case True
    from "1.prems" True obtain p ov a row row' sv where
      "rd (pl_vec data) pl = Some p"
      "wr (oob_vec data) (sec_per_pg g * pl + sec) (p + pg_sz data + sec_oob_sz g * sec) = Some ov"
      "rd (sec_vec data) pl = Some (a, row)"
      "wr row sec (p + sec_size g * sec) = Some row'"
      "wr (sec_vec data) pl (a, row') = Some sv"
      "prepare_sec g pl (Suc sec) (data\<lparr>oob_vec := ov, sec_vec := sv\<rparr>) = Some d"
      by (subst (asm) prepare_sec.simps) (auto simp: bind_eq_Some_conv)
    then show ?thesis
      using "1.IH" True by simp
  next
    case False
    with "1.prems" show ?thesis by (subst (asm) prepare_sec.simps) simp
  qed
qed

termination prepare_pl
proof (relation "measure (\<lambda>(g, pl, data). n_pl data - pl)", goal_cases)
  case 1
  show ?case by simp
next
  case (2 g pl data pv d1 p x a row row' sv)
  from prepare_sec_n_pl [OF 2(3)] 2(1) show ?case by simp
qed

declare prepare_pl.simps [simp del]

text \<open>\<^verbatim>\<open>app_pg_io_prepare\<close>. The geometry is read through \<^verbatim>\<open>lch->ch->geometry\<close>.\<close>

definition app_pg_io_prepare :: "app_channel \<Rightarrow> app_io_data \<Rightarrow> app_io_data option" where
  "app_pg_io_prepare lch data = do { c \<leftarrow> ch lch; prepare_pl (geometry c) 0 data }"

text \<open>The unwinding labels of \<^verbatim>\<open>app_alloc_pg_io\<close>. Each one releases one block and falls
  through to the next; \<open>FREE_SEC\<close> first runs \<^verbatim>\<open>while (pl) { pl--; free (sec_vec[pl]); }\<close>.\<close>

fun free_sec ::
  "nat \<Rightarrow> (addr \<times> nat option list) option list \<Rightarrow> 'm world \<Rightarrow> 'm world option" where
  "free_sec 0 sv w = Some w"
| "free_sec (Suc pl) sv w = do { (a, row) \<leftarrow> rd sv pl; w' \<leftarrow> free a w; free_sec pl sv w' }"

definition FREE :: "addr \<Rightarrow> 'm world \<Rightarrow> (app_io_data option \<times> 'm world) option" where
  "FREE data w = do { w' \<leftarrow> free data w; Some (None, w') }"

definition FREE_BUF ::
  "addr \<Rightarrow> addr \<Rightarrow> 'm world \<Rightarrow> (app_io_data option \<times> 'm world) option" where
  "FREE_BUF data b w = do { w' \<leftarrow> free b w; FREE data w' }"

definition FREE_VEC ::
  "addr \<Rightarrow> addr \<Rightarrow> addr \<Rightarrow> 'm world \<Rightarrow> (app_io_data option \<times> 'm world) option" where
  "FREE_VEC data b pv w = do { w' \<leftarrow> free pv w; FREE_BUF data b w' }"

definition FREE_OOB ::
  "addr \<Rightarrow> addr \<Rightarrow> addr \<Rightarrow> addr \<Rightarrow> 'm world \<Rightarrow> (app_io_data option \<times> 'm world) option" where
  "FREE_OOB data b pv ov w = do { w' \<leftarrow> free ov w; FREE_VEC data b pv w' }"

definition FREE_SEC ::
  "addr \<Rightarrow> addr \<Rightarrow> addr \<Rightarrow> addr \<Rightarrow> addr \<Rightarrow> (addr \<times> nat option list) option list \<Rightarrow> nat
     \<Rightarrow> 'm world \<Rightarrow> (app_io_data option \<times> 'm world) option" where
  "FREE_SEC data b pv ov svp sv pl w =
     do { w1 \<leftarrow> free_sec pl sv w; w2 \<leftarrow> free svp w1; FREE_OOB data b pv ov w2 }"

text \<open>The loop that allocates one array of \<open>sec_per_pg + 1\<close> pointers per plane. It
  returns whether every allocation succeeded, the value of \<open>pl\<close> on exit, the array
  \<open>sec_vec\<close> and the world. The assignment \<^verbatim>\<open>data->sec_vec[pl] = malloc (...)\<close> needs the
  slot \<open>pl\<close> to exist also when \<^verbatim>\<open>malloc\<close> returns \<open>NULL\<close>.\<close>

function alloc_sec ::
  "'m env \<Rightarrow> nvm_mmgr_geometry \<Rightarrow> nat \<Rightarrow> nat \<Rightarrow> (addr \<times> nat option list) option list \<Rightarrow> 'm world
     \<Rightarrow> (bool \<times> nat \<times> (addr \<times> nat option list) option list \<times> 'm world) option" where
  "alloc_sec env g n pl sv w =
     (if pl < n then
        (case malloc env w of
           (None, w') \<Rightarrow> if pl < length sv then Some (False, pl, sv, w') else None
         | (Some a, w') \<Rightarrow> do {
             sv' \<leftarrow> wr sv pl (a, replicate (sec_per_pg g + 1) None);
             alloc_sec env g n (Suc pl) sv' w'
           })
      else Some (True, pl, sv, w))"
  by pat_completeness auto
termination
  by (relation "measure (\<lambda>(env, g, n, pl, sv, w). n - pl)") auto

declare alloc_sec.simps [simp del]

text \<open>\<^verbatim>\<open>app_alloc_pg_io\<close>. The result \<open>None\<close> inside \<open>Some\<close> is the returned \<open>NULL\<close>.\<close>

definition app_alloc_pg_io ::
  "'m env \<Rightarrow> app_channel \<Rightarrow> 'm world \<Rightarrow> (app_io_data option \<times> 'm world) option" where
  "app_alloc_pg_io env lch w0 =
     (case malloc env w0 of
        (None, w1) \<Rightarrow> Some (None, w1)
      | (Some data, w1) \<Rightarrow>
        (case ch lch of
           None \<Rightarrow> None
         | Some c \<Rightarrow>
           (let g = geometry c;
                npl = n_of_planes g;
                pgsz = pg_size g;
                metasz = sec_oob_sz g * sec_per_pg g;
                bufsz = (pgsz + metasz) * npl
            in
            (case malloc env w1 of
               (None, w2) \<Rightarrow> FREE data w2
             | (Some b, w2) \<Rightarrow>
            (case malloc env w2 of
               (None, w3) \<Rightarrow> FREE_BUF data b w3
             | (Some pv, w3) \<Rightarrow>
            (case malloc env w3 of
               (None, w4) \<Rightarrow> FREE_VEC data b pv w4
             | (Some ov, w4) \<Rightarrow>
            (case malloc env w4 of
               (None, w5) \<Rightarrow> FREE_OOB data b pv ov w5
             | (Some svp, w5) \<Rightarrow>
            (case alloc_sec env g npl 0 (replicate (sec_per_pl_pg g) None) w5 of
               None \<Rightarrow> None
             | Some (ok, pl, sv, w6) \<Rightarrow>
                 if \<not> ok then FREE_SEC data b pv ov svp sv pl w6
                 else
                   (case app_pg_io_prepare lch
                            \<lparr>data_p = data, io_lch = lch, io_ch = ch lch, n_pl = npl,
                             pg_sz = pgsz, meta_sz = metasz, buf_sz = bufsz,
                             buf_p = b, buf = replicate bufsz 0,
                             pl_vec_p = pv, pl_vec = replicate npl None,
                             oob_vec_p = ov, oob_vec = replicate (sec_per_pl_pg g) None,
                             sec_vec_p = svp, sec_vec = sv\<rparr> of
                      None \<Rightarrow> None
                    | Some d \<Rightarrow> Some (Some d, w6))))))))))"

text \<open>\<^verbatim>\<open>app_free_pg_io\<close>.\<close>

function free_pl :: "app_io_data \<Rightarrow> nat \<Rightarrow> 'm world \<Rightarrow> 'm world option" where
  "free_pl data pl w =
     (if pl < n_pl data
      then do { (a, row) \<leftarrow> rd (sec_vec data) pl; w' \<leftarrow> free a w; free_pl data (Suc pl) w' }
      else Some w)"
  by pat_completeness auto
termination
  by (relation "measure (\<lambda>(data, pl, w). n_pl data - pl)") auto

declare free_pl.simps [simp del]

definition app_free_pg_io :: "app_io_data \<Rightarrow> 'm world \<Rightarrow> 'm world option" where
  "app_free_pg_io data w = do {
     w1 \<leftarrow> free_pl data 0 w;
     w2 \<leftarrow> free (sec_vec_p data) w1;
     w3 \<leftarrow> free (oob_vec_p data) w2;
     w4 \<leftarrow> free (pl_vec_p data) w3;
     w5 \<leftarrow> free (buf_p data) w4;
     free (data_p data) w5
   }"

subsection \<open>The physical I/O executor\<close>

text \<open>The plane loop of \<^verbatim>\<open>app_pg_io\<close> and of \<^verbatim>\<open>app_io_rsv_blk\<close>. The two functions have
  the same loop; they differ in the address they write into \<^verbatim>\<open>cmd->ppa\<close>, which is the
  argument \<open>mk\<close> here (the address for plane \<open>pl\<close>). \<open>b\<close> is the variable \<^verbatim>\<open>buf\<close>, \<open>ret\<close>
  the variable \<^verbatim>\<open>ret\<close>.\<close>

function plane_loop ::
  "'m env \<Rightarrow> nvm_channel \<Rightarrow> cmdtype \<Rightarrow> nat option list \<Rightarrow> (nat \<Rightarrow> nvm_ppa_addr) \<Rightarrow> nat
     \<Rightarrow> nat option \<Rightarrow> int \<Rightarrow> byte list \<times> 'm world \<Rightarrow> (int \<times> byte list \<times> 'm world) option" where
  "plane_loop env c cmdtype plv mk pl b ret s =
     (if pl < n_of_planes (geometry c) then
        (case (if cmdtype \<noteq> MMGR_ERASE_BLK then map_option Some (rd plv pl) else Some b) of
           None \<Rightarrow> None
         | Some b' \<Rightarrow>
             (case nvm_submit_sync_io env c (mk pl) b' cmdtype s of
                (r, s') \<Rightarrow>
                  if r \<noteq> 0 then Some (r, s')
                  else plane_loop env c cmdtype plv mk (Suc pl) b' r s'))
      else Some (ret, s))"
  by pat_completeness auto
termination
  by (relation "measure (\<lambda>(env, c, cmdtype, plv, mk, pl, b, ret, s). n_of_planes (geometry c) - pl)")
     auto

declare plane_loop.simps [simp del]

definition app_pg_io ::
  "'m env \<Rightarrow> app_channel \<Rightarrow> cmdtype \<Rightarrow> nat option list \<Rightarrow> nvm_ppa_addr \<Rightarrow> byte list \<times> 'm world
     \<Rightarrow> (int \<times> byte list \<times> 'm world) option" where
  "app_pg_io env lch cmdtype plv ppa s =
     (case s of (mem, w) \<Rightarrow>
        (case malloc env w of
           (None, w1) \<Rightarrow> Some (EMEM env, mem, w1)
         | (Some cmd, w1) \<Rightarrow> do {
             c \<leftarrow> ch lch;
             (ret, mem', w2) \<leftarrow>
               plane_loop env c cmdtype plv
                 (\<lambda>pl. \<lparr>g_ch = ch_mmgr_id c, g_lun = g_lun ppa, g_blk = g_blk ppa,
                        g_pl = pl, g_pg = g_pg ppa\<rparr>)
                 0 None (- 1) (mem, w1);
             w3 \<leftarrow> free cmd w2;
             Some (ret, mem', w3)
           }))"

definition app_io_rsv_blk ::
  "'m env \<Rightarrow> app_channel \<Rightarrow> cmdtype \<Rightarrow> nat option list \<Rightarrow> nat \<Rightarrow> nat \<Rightarrow> byte list \<times> 'm world
     \<Rightarrow> (int \<times> byte list \<times> 'm world) option" where
  "app_io_rsv_blk env lch cmdtype plv blk pg s =
     (case s of (mem, w) \<Rightarrow>
        (case malloc env w of
           (None, w1) \<Rightarrow> Some (EMEM env, mem, w1)
         | (Some cmd, w1) \<Rightarrow> do {
             c \<leftarrow> ch lch;
             (ret, mem', w2) \<leftarrow>
               plane_loop env c cmdtype plv
                 (\<lambda>pl. \<lparr>g_ch = ch_mmgr_id c, g_lun = 0, g_blk = blk, g_pl = pl, g_pg = pg\<rparr>)
                 0 None (- 1) (mem, w1);
             w3 \<leftarrow> free cmd w2;
             Some (ret, mem', w3)
           }))"

definition app_pg_io_switch ::
  "'m env \<Rightarrow> app_channel \<Rightarrow> cmdtype \<Rightarrow> nat option list \<Rightarrow> nvm_ppa_addr \<Rightarrow> io_type
     \<Rightarrow> byte list \<times> 'm world \<Rightarrow> (int \<times> byte list \<times> 'm world) option" where
  "app_pg_io_switch env lch cmdtype plv ppa type s =
     (case type of
        APP_IO_NORMAL \<Rightarrow> app_pg_io env lch cmdtype plv ppa s
      | APP_IO_RESERVED \<Rightarrow> app_io_rsv_blk env lch cmdtype plv (g_blk ppa) (g_pg ppa) s
      | APP_IO_OTHER \<Rightarrow> Some (- 1, s))"

subsection \<open>Sequential table transfer\<close>

text \<open>The inner loop of \<^verbatim>\<open>app_nvm_seq_transfer\<close> over the planes of page \<open>i\<close>. The state
  is \<^verbatim>\<open>ent_left\<close>, the I/O buffer and the user's table. \<open>epp\<close> is \<^verbatim>\<open>ent_per_pg\<close>, \<open>esz\<close> is
  \<^verbatim>\<open>entry_sz\<close>, so \<^verbatim>\<open>pg_ent_sz\<close> is \<open>epp * esz\<close>. The counts and sizes are natural
  numbers: the arithmetic of the source on them (\<^verbatim>\<open>uint16_t\<close>, \<^verbatim>\<open>uint32_t\<close>, \<^verbatim>\<open>size_t\<close>) is
  taken not to wrap.\<close>

function copy_planes ::
  "app_io_data \<Rightarrow> direction \<Rightarrow> nat \<Rightarrow> nat \<Rightarrow> nat \<Rightarrow> nat \<Rightarrow> nat \<times> byte list \<times> byte list
     \<Rightarrow> (nat \<times> byte list \<times> byte list) option" where
  "copy_planes io dir epp esz i pl s =
     (case s of (ent_left, mem, user) \<Rightarrow>
        if pl < n_pl io then
          (let trf_sz = (if ent_left \<ge> epp div n_pl io
                         then (epp div n_pl io) * esz else ent_left * esz);
               uoff = (epp * esz) * i + pl * ((epp * esz) div n_pl io)
           in
           (case rd (pl_vec io) pl of
              None \<Rightarrow> None
            | Some p \<Rightarrow>
                (case (if dir = APP_TRANS_TO_NVM
                       then do { bs \<leftarrow> memrd user uoff trf_sz; m \<leftarrow> memwr mem p bs; Some (m, user) }
                       else do { bs \<leftarrow> memrd mem p trf_sz; u \<leftarrow> memwr user uoff bs; Some (mem, u) }) of
                   None \<Rightarrow> None
                 | Some (mem', user') \<Rightarrow>
                     (let ent_left' = (if ent_left \<ge> epp div n_pl io
                                       then ent_left - epp div n_pl io else 0)
                      in if ent_left' = 0 then Some (ent_left', mem', user')
                         else copy_planes io dir epp esz i (Suc pl) (ent_left', mem', user')))))
        else Some (ent_left, mem, user))"
  by pat_completeness auto
termination
  by (relation "measure (\<lambda>(io, dir, epp, esz, i, pl, s). n_pl io - pl)") auto

declare copy_planes.simps [simp del]

text \<open>The address structures (\<^verbatim>\<open>struct nvm_ppa_addr\<close>) that \<^verbatim>\<open>app_nvm_seq_transfer\<close> reaches
  through pointers are kept in a store \<open>st\<close>, a list of structures; a pointer to a
  structure is its index in the list. The callees \<^verbatim>\<open>app_pg_io\<close> and \<^verbatim>\<open>app_io_rsv_blk\<close> only
  read the structure they are given, so they receive its value.

  The loop over the pages. \<open>ppa_io\<close> is the address of the local variable \<^verbatim>\<open>ppa_io\<close>. The
  state is the store, \<^verbatim>\<open>ent_left\<close>, the I/O buffer, the user's table and the world; the
  result adds the returned status. The assignment \<^verbatim>\<open>ppa_io.g.pg = start_pg + i\<close> is the
  update of the store at \<open>ppa_io\<close>.\<close>

function xfer_pages ::
  "'m env \<Rightarrow> app_io_data \<Rightarrow> nat \<Rightarrow> nat \<Rightarrow> nat \<Rightarrow> direction \<Rightarrow> io_type \<Rightarrow> nat \<Rightarrow> addr \<Rightarrow> nat
     \<Rightarrow> nvm_ppa_addr list \<times> nat \<times> byte list \<times> byte list \<times> 'm world
     \<Rightarrow> (int \<times> nvm_ppa_addr list \<times> nat \<times> byte list \<times> byte list \<times> 'm world) option" where
  "xfer_pages env io pgs epp esz dir rsv start_pg ppa_io i s =
     (case s of (st, ent_left, mem, user, w) \<Rightarrow>
        if i < pgs then
          (if ppa_io < length st then
             (let st1 = st[ppa_io := (st ! ppa_io)\<lparr>g_pg := start_pg + i\<rparr>] in
              (case (if dir = APP_TRANS_FROM_NVM
                     then app_pg_io_switch env (io_lch io) MMGR_READ_PG (pl_vec io)
                            (st1 ! ppa_io) rsv (mem, w)
                     else Some (0, mem, w)) of
                 None \<Rightarrow> None
               | Some (r1, mem1, w1) \<Rightarrow>
                   if r1 \<noteq> 0 then Some (- 1, st1, ent_left, mem1, user, w1)
                   else
                     (case copy_planes io dir epp esz i 0 (ent_left, mem1, user) of
                        None \<Rightarrow> None
                      | Some (ent_left', mem2, user') \<Rightarrow>
                          (case (if dir = APP_TRANS_TO_NVM
                                 then app_pg_io_switch env (io_lch io) MMGR_WRITE_PG (pl_vec io)
                                        (st1 ! ppa_io) rsv (mem2, w1)
                                 else Some (0, mem2, w1)) of
                             None \<Rightarrow> None
                           | Some (r2, mem3, w2) \<Rightarrow>
                               if r2 \<noteq> 0 then Some (- 1, st1, ent_left', mem3, user', w2)
                               else xfer_pages env io pgs epp esz dir rsv start_pg ppa_io (Suc i)
                                      (st1, ent_left', mem3, user', w2)))))
           else None)
        else Some (0, st, ent_left, mem, user, w))"
  by pat_completeness auto
termination
  by (relation "measure (\<lambda>(env, io, pgs, epp, esz, dir, rsv, start_pg, ppa_io, i, s). pgs - i)")
     auto

declare xfer_pages.simps [simp del]

text \<open>The outcome of \<^verbatim>\<open>app_nvm_seq_transfer\<close>: the returned status, the store of the
  address structures that exist after the return (the caller's among them), the local
  variable \<^verbatim>\<open>ppa_io\<close> as it stood at the return, the I/O descriptor with its buffer, the
  user's table and the world.\<close>

record 'm xfer =
  x_ret :: int
  x_structs :: "nvm_ppa_addr list"
  x_ppa_io :: nvm_ppa_addr
  x_io :: app_io_data
  x_user :: "byte list"
  x_world :: "'m world"

text \<open>\<^verbatim>\<open>app_nvm_seq_transfer\<close>. \<open>ppa\<close> is the pointer argument \<^verbatim>\<open>ppa\<close>, an index of the store
  \<open>st\<close>; a pointer outside the store has no defined result. The local variable \<^verbatim>\<open>ppa_io\<close>
  is a new object, placed behind the structures that exist at the call;
  \<^verbatim>\<open>memcpy (&ppa_io, ppa, sizeof (struct nvm_ppa_addr))\<close> gives it the value of \<^verbatim>\<open>*ppa\<close>. It
  ceases to exist at the return.\<close>

definition app_nvm_seq_transfer ::
  "'m env \<Rightarrow> app_io_data \<Rightarrow> nvm_ppa_addr list \<Rightarrow> addr \<Rightarrow> byte list \<Rightarrow> nat \<Rightarrow> nat \<Rightarrow> nat \<Rightarrow> nat
     \<Rightarrow> direction \<Rightarrow> io_type \<Rightarrow> 'm world \<Rightarrow> 'm xfer option" where
  "app_nvm_seq_transfer env io st ppa user_buf pgs ent_per_pg ent_left entry_sz dir reserved w =
     (if ppa < length st then
        (let ppa_io = length st;
             st0 = st @ [st ! ppa];
             start_pg = g_pg (st0 ! ppa_io)
         in
         (case xfer_pages env io pgs ent_per_pg entry_sz dir reserved start_pg ppa_io 0
                 (st0, ent_left, buf io, user_buf, w) of
            None \<Rightarrow> None
          | Some (ret, st', left', mem', user', w') \<Rightarrow>
              Some \<lparr>x_ret = ret, x_structs = take ppa_io st', x_ppa_io = st' ! ppa_io,
                    x_io = io\<lparr>buf := mem'\<rparr>, x_user = user', x_world = w'\<rparr>))
      else None)"

subsection \<open>The recency scanner\<close>

text \<open>The \<^verbatim>\<open>do ... while\<close> loop of \<^verbatim>\<open>app_blk_current_page\<close>. \<open>pg\<close> is the \<^verbatim>\<open>int\<close> cursor,
  \<open>offset\<close> the stride. The call of \<^verbatim>\<open>app_io_rsv_blk\<close> converts \<open>pg\<close> to \<^verbatim>\<open>uint16_t\<close>. The
  loop condition is evaluated on \<^verbatim>\<open>int\<close>. With \<open>offset = 0\<close> the loop need not exit:
  then the result is \<open>None\<close>. The result is \<^verbatim>\<open>ret\<close>, \<open>pg\<close>, the I/O buffer and the
  world.\<close>

partial_function (option) scan_pages ::
  "'m env \<Rightarrow> app_channel \<Rightarrow> app_io_data \<Rightarrow> nat \<Rightarrow> nat \<Rightarrow> int \<Rightarrow> byte list \<times> 'm world
     \<Rightarrow> (int \<times> int \<times> byte list \<times> 'm world) option" where
  "scan_pages env lch io blk_id offset pg s =
     (case s of (mem, w) \<Rightarrow>
        (case memset0 mem (buf_sz io) of
           None \<Rightarrow> None
         | Some mem0 \<Rightarrow>
        (case app_io_rsv_blk env lch MMGR_READ_PG (pl_vec io) blk_id (nat (pg mod 65536))
                (mem0, w) of
           None \<Rightarrow> None
         | Some (ret, mem1, w1) \<Rightarrow>
        (case memrd mem1 (pg_sz io) (magic_sz env) of
           None \<Rightarrow> None
         | Some oob \<Rightarrow>
             if ret \<noteq> 0 \<or> \<not> is_magic env oob then Some (ret, pg, mem1, w1)
             else
               (case io_ch io of
                  None \<Rightarrow> None
                | Some c \<Rightarrow>
                    if pg + int offset < int (pg_per_blk (geometry c)) - int offset
                    then scan_pages env lch io blk_id offset (pg + int offset) (mem1, w1)
                    else Some (ret, pg + int offset, mem1, w1))))))"

declare scan_pages.simps [code]

text \<open>\<^verbatim>\<open>app_blk_current_page\<close>. \<open>io_opt = None\<close> is the call with \<^verbatim>\<open>io == NULL\<close>. The result
  is the returned value, the caller's descriptor with its buffer as the scan left it
  (\<open>None\<close> when the caller passed none), and the world.\<close>

definition app_blk_current_page ::
  "'m env \<Rightarrow> app_channel \<Rightarrow> app_io_data option \<Rightarrow> nat \<Rightarrow> nat \<Rightarrow> 'm world
     \<Rightarrow> (int \<times> app_io_data option \<times> 'm world) option" where
  "app_blk_current_page env lch io_opt blk_id offset w =
     (case (case io_opt of
              Some io \<Rightarrow> Some (Some io, False, w)
            | None \<Rightarrow> map_option (\<lambda>(r, w'). (r, True, w')) (app_alloc_pg_io env lch w)) of
        None \<Rightarrow> None
      | Some (None, fr, w0) \<Rightarrow> Some (- 1, None, w0)
      | Some (Some io, fr, w0) \<Rightarrow>
          (case scan_pages env lch io blk_id offset 0 (buf io, w0) of
             None \<Rightarrow> None
           | Some (ret, pg, mem, w1) \<Rightarrow>
               (case (if fr then app_free_pg_io io w1 else Some w1) of
                  None \<Rightarrow> None
                | Some w2 \<Rightarrow>
                    Some (if ret = 0 then pg else - 1,
                          if fr then None else Some (io\<lparr>buf := mem\<rparr>), w2))))"

subsection \<open>The bad-block table\<close>

text \<open>\<^verbatim>\<open>app_ftl_get_bbtbl\<close>. \<open>out\<close> is the caller's buffer \<^verbatim>\<open>bbtbl\<close> (\<open>None\<close> is \<open>NULL\<close>). The
  channel is looked up with \<^verbatim>\<open>channels.get_fn\<close>. The initialiser of \<^verbatim>\<open>l_addr\<close> reads
  \<^verbatim>\<open>ch->geometry\<close> before \<^verbatim>\<open>nvm_memcheck (ch)\<close> is evaluated. The result is the returned
  value and the caller's buffer.\<close>

definition app_ftl_get_bbtbl ::
  "nvm_ppa_addr \<Rightarrow> byte list option \<Rightarrow> nat \<Rightarrow> 'm world \<Rightarrow> (int \<times> byte list option) option" where
  "app_ftl_get_bbtbl ppa out nb w =
     (case channels w (g_ch ppa) of
        None \<Rightarrow> None
      | Some lch \<Rightarrow>
        (case ch lch of
           None \<Rightarrow> None
         | Some c \<Rightarrow>
           (let l_addr = g_lun ppa * blk_per_lun (geometry c) * n_of_planes (geometry c) in
            if out = None \<or> ch lch = None \<or>
               nb \<noteq> blk_per_lun (geometry c) * (n_of_planes (geometry c) mod 65536)
            then Some (- 1, out)
            else do {
              dst \<leftarrow> out;
              bs \<leftarrow> memrd (bbtbl lch) l_addr nb;
              dst' \<leftarrow> memwr dst 0 bs;
              Some (0, Some dst')
            })))"

text \<open>\<^verbatim>\<open>app_ftl_set_bbtbl\<close>. The bound check is evaluated on \<^verbatim>\<open>int\<close>. The call of the
  registered flush function is recorded in \<open>flushed\<close>, with the channel it was given.\<close>

definition app_ftl_set_bbtbl ::
  "'m env \<Rightarrow> nvm_ppa_addr \<Rightarrow> byte \<Rightarrow> 'm world \<Rightarrow> (int \<times> 'm world) option" where
  "app_ftl_set_bbtbl env ppa v w =
     (case channels w (g_ch ppa) of
        None \<Rightarrow> None
      | Some lch \<Rightarrow>
        (case ch lch of
           None \<Rightarrow> None
         | Some c \<Rightarrow>
           (let npl = n_of_planes (geometry c) in
            if int (g_blk ppa * npl + g_pl ppa) > int (blk_per_lun (geometry c) * npl) - 1
            then Some (- 1, w)
            else
              (let l_addr = g_lun ppa * blk_per_lun (geometry c) * npl;
                   idx = l_addr + (g_blk ppa * npl + g_pl ppa)
               in
               if idx < length (bbtbl lch) then
                 (let flush = (bbtbl lch ! idx \<noteq> v);
                      lch' = lch\<lparr>bbtbl := (bbtbl lch)[idx := v]\<rparr>;
                      w1 = w\<lparr>channels := (channels w)(g_ch ppa := Some lch')\<rparr>
                  in
                  if flush then
                    (case flush_fn env lch' (media w1) of
                       (ret, m') \<Rightarrow> Some (0, w1\<lparr>media := m', flushed := flushed w1 @ [lch']\<rparr>))
                  else Some (0, w1))
               else None))))"

subsection \<open>A flash device behind the media manager\<close>

text \<open>Modelled from the spec: the media manager's I/O primitive \<^verbatim>\<open>nvm_submit_sync_io\<close>,
  which the file calls and does not define (section 6: synchronous submission of one
  read-page, write-page or erase-block command for a physical address, with a data
  buffer pointer, returning success or failure). The device keeps, for each page of each
  plane, the bytes last written there; one command moves one plane's page with its
  out-of-band area, \<open>pg_size + sec_oob_sz * sec_per_pg\<close> bytes. A command for an address
  marked \<open>bad\<close>, or with a buffer that does not hold that many bytes, fails with status
  \<open>-1\<close> and changes nothing. A page never written reads as bytes \<open>0xFF\<close>.\<close>

record flash =
  cells :: "nvm_ppa_addr \<Rightarrow> byte list option"
  bad :: "nvm_ppa_addr \<Rightarrow> bool"

definition plane_len :: "nvm_mmgr_geometry \<Rightarrow> nat" where
  "plane_len g = pg_size g + sec_oob_sz g * sec_per_pg g"

definition flash_page :: "flash \<Rightarrow> nat \<Rightarrow> nvm_ppa_addr \<Rightarrow> byte list" where
  "flash_page f len a =
     (case cells f a of None \<Rightarrow> replicate len 255 | Some d \<Rightarrow> take len (d @ replicate len 255))"

definition flash_submit ::
  "flash \<Rightarrow> nvm_channel \<Rightarrow> nvm_ppa_addr \<Rightarrow> nat option \<Rightarrow> cmdtype \<Rightarrow> byte list
     \<Rightarrow> int \<times> byte list \<times> flash" where
  "flash_submit f c cmd b t mem =
     (let len = plane_len (geometry c) in
      if bad f cmd then (- 1, mem, f)
      else
        (case t of
           MMGR_ERASE_BLK \<Rightarrow>
             (0, mem,
              f\<lparr>cells := (\<lambda>a. if g_ch a = g_ch cmd \<and> g_lun a = g_lun cmd \<and> g_blk a = g_blk cmd
                                   \<and> g_pl a = g_pl cmd
                                then None else cells f a)\<rparr>)
         | MMGR_WRITE_PG \<Rightarrow>
             (case b of
                None \<Rightarrow> (- 1, mem, f)
              | Some off \<Rightarrow>
                  if off + len \<le> length mem
                  then (0, mem, f\<lparr>cells := (cells f)(cmd \<mapsto> take len (drop off mem))\<rparr>)
                  else (- 1, mem, f))
         | MMGR_READ_PG \<Rightarrow>
             (case b of
                None \<Rightarrow> (- 1, mem, f)
              | Some off \<Rightarrow>
                  if off + len \<le> length mem
                  then (0, take off mem @ flash_page f len cmd @ drop (off + len) mem, f)
                  else (- 1, mem, f))))"

subsection \<open>Notation for the proofs about the allocator\<close>

text \<open>\<open>fresh c k\<close> are the blocks that \<open>k\<close> successful allocation requests return when
  \<open>c\<close> requests were made before. \<open>hstate w m live lg\<close> is the world \<open>w\<close> with the
  allocator in the state given by \<open>m\<close>, \<open>live\<close> and \<open>lg\<close>.\<close>

definition fresh :: "nat \<Rightarrow> nat \<Rightarrow> addr list" where
  "fresh c k = map Suc [c..<c + k]"

definition hstate :: "'m world \<Rightarrow> nat \<Rightarrow> addr list \<Rightarrow> hevent list \<Rightarrow> 'm world" where
  "hstate w m live lg = w\<lparr>heap := \<lparr>h_count = m, h_live = live, h_log = lg\<rparr>\<rparr>"

subsection \<open>Notation for the proofs about the buffer layout\<close>

text \<open>\<open>plane_ready g data q\<close>: the slot \<open>q\<close> of \<open>sec_vec\<close> points to an array of
  \<open>sec_per_pg + 1\<close> pointers. \<open>plane_laid g data q\<close>: the pointers of plane \<open>q\<close> have the
  values that \<^verbatim>\<open>app_pg_io_prepare\<close> gives them, where a plane's share of the buffer is
  \<open>buf_sz div n_pl\<close> bytes.\<close>

definition plane_ready :: "nvm_mmgr_geometry \<Rightarrow> app_io_data \<Rightarrow> nat \<Rightarrow> bool" where
  "plane_ready g data q \<longleftrightarrow>
     (\<exists>a row. sec_vec data ! q = Some (a, row) \<and> length row = sec_per_pg g + 1)"

definition plane_laid :: "nvm_mmgr_geometry \<Rightarrow> app_io_data \<Rightarrow> nat \<Rightarrow> bool" where
  "plane_laid g data q \<longleftrightarrow>
     pl_vec data ! q = Some (q * (buf_sz data div n_pl data)) \<and>
     (\<exists>a row. sec_vec data ! q = Some (a, row) \<and> length row = sec_per_pg g + 1 \<and>
        (\<forall>s < sec_per_pg g. row ! s = Some (q * (buf_sz data div n_pl data) + sec_size g * s)) \<and>
        row ! sec_per_pg g = Some (q * (buf_sz data div n_pl data) + pg_sz data)) \<and>
     (\<forall>s < sec_per_pg g.
        oob_vec data ! (sec_per_pg g * q + s) =
          Some (q * (buf_sz data div n_pl data) + pg_sz data + sec_oob_sz g * s))"

subsection \<open>Pages of the flash device\<close>

text \<open>\<open>rsv_addr c blk pg pl\<close> is the address that \<^verbatim>\<open>app_io_rsv_blk\<close> sends for plane \<open>pl\<close>.
  \<open>page_readable f c blk pg\<close>: no plane of page \<open>pg\<close> of block \<open>blk\<close> (lun \<open>0\<close>) is bad, so a
  read of the page succeeds. \<open>page_stamped env f c blk pg\<close>: the out-of-band region of
  plane \<open>0\<close> of that page, which starts \<open>pg_size\<close> bytes into the plane's data, holds the
  magic stamp.\<close>

definition rsv_addr :: "nvm_channel \<Rightarrow> nat \<Rightarrow> nat \<Rightarrow> nat \<Rightarrow> nvm_ppa_addr" where
  "rsv_addr c blk pg pl = \<lparr>g_ch = ch_mmgr_id c, g_lun = 0, g_blk = blk, g_pl = pl, g_pg = pg\<rparr>"

definition page_readable :: "flash \<Rightarrow> nvm_channel \<Rightarrow> nat \<Rightarrow> nat \<Rightarrow> bool" where
  "page_readable f c blk pg \<longleftrightarrow>
     (\<forall>pl<n_of_planes (geometry c). \<not> bad f (rsv_addr c blk pg pl))"

definition page_stamped :: "'m env \<Rightarrow> flash \<Rightarrow> nvm_channel \<Rightarrow> nat \<Rightarrow> nat \<Rightarrow> bool" where
  "page_stamped env f c blk pg \<longleftrightarrow>
     is_magic env (take (magic_sz env)
       (drop (pg_size (geometry c))
          (flash_page f (plane_len (geometry c)) (rsv_addr c blk pg 0))))"

subsection \<open>Addresses of a table transfer\<close>

text \<open>\<open>xfer_addr type c ppa pg pl\<close> is the address that \<^verbatim>\<open>app_pg_io_switch\<close> sends for plane
  \<open>pl\<close> of page \<open>pg\<close>: through \<^verbatim>\<open>app_pg_io\<close> with the lun of \<open>ppa\<close>, through
  \<^verbatim>\<open>app_io_rsv_blk\<close> with lun \<open>0\<close>.\<close>

definition xfer_addr :: "io_type \<Rightarrow> nvm_channel \<Rightarrow> nvm_ppa_addr \<Rightarrow> nat \<Rightarrow> nat \<Rightarrow> nvm_ppa_addr" where
  "xfer_addr type c ppa pg pl =
     \<lparr>g_ch = ch_mmgr_id c, g_lun = (if type = APP_IO_RESERVED then 0 else g_lun ppa),
      g_blk = g_blk ppa, g_pl = pl, g_pg = pg\<rparr>"


subsection \<open>Descriptors of the scanner\<close>

text \<open>\<open>io_laid c io\<close>: the descriptor \<open>io\<close> is laid out for the channel \<open>c\<close> as
  \<^verbatim>\<open>app_alloc_pg_io\<close> leaves it, as far as \<^verbatim>\<open>app_blk_current_page\<close> uses it: the geometry
  pointer, the page size, a buffer of one plane's page and out-of-band area per plane,
  and the plane pointers at the start of each plane's share.\<close>

definition io_laid :: "nvm_channel \<Rightarrow> app_io_data \<Rightarrow> bool" where
  "io_laid c io \<longleftrightarrow>
     io_ch io = Some c \<and> pg_sz io = pg_size (geometry c) \<and>
     buf_sz io = n_of_planes (geometry c) * plane_len (geometry c) \<and>
     length (buf io) = buf_sz io \<and>
     (\<forall>p<n_of_planes (geometry c). rd (pl_vec io) p = Some (p * plane_len (geometry c)))"

subsection \<open>Concrete instances\<close>

text \<open>A channel with two planes, pages of four bytes in two sectors with one out-of-band
  byte each, four pages per block, two blocks per lun and a table for two luns; an empty
  flash device in which no address is bad; an allocator that never fails; a magic record
  of one byte with \<^verbatim>\<open>APP_MAGIC\<close> \<open>= 0x3c\<close>; a flush function that always fails.\<close>

definition ex_geometry :: nvm_mmgr_geometry where
  "ex_geometry = \<lparr>n_of_planes = 2, pg_size = 4, sec_size = 2, sec_per_pg = 2, sec_oob_sz = 1,
                   sec_per_pl_pg = 4, pg_per_blk = 4, blk_per_lun = 2\<rparr>"

definition ex_nvm_channel :: nvm_channel where
  "ex_nvm_channel = \<lparr>ch_mmgr_id = 7, geometry = ex_geometry\<rparr>"

definition ex_channel :: app_channel where
  "ex_channel = \<lparr>ch = Some ex_nvm_channel, bbtbl = [0, 0, 0, 0, 0, 0, 0, 0]\<rparr>"

definition ex_flash :: flash where
  "ex_flash = \<lparr>cells = (\<lambda>a. None), bad = (\<lambda>a. False)\<rparr>"

definition ex_env :: "flash env" where
  "ex_env = \<lparr>submit = flash_submit, alloc_fails = (\<lambda>n. False), EMEM = 7, magic_sz = 1,
              is_magic = (\<lambda>bs. bs = [60]), flush_fn = (\<lambda>l m. (- 1, m))\<rparr>"

definition ex_world :: "flash world" where
  "ex_world = \<lparr>heap = \<lparr>h_count = 0, h_live = [], h_log = []\<rparr>, media = ex_flash, issued = [],
                channels = (\<lambda>n. if n = 0 then Some ex_channel else None), flushed = []\<rparr>"

definition ex_ppa :: nvm_ppa_addr where
  "ex_ppa = \<lparr>g_ch = 0, g_lun = 1, g_blk = 1, g_pl = 1, g_pg = 2\<rparr>"

text \<open>The descriptor that \<^verbatim>\<open>app_alloc_pg_io\<close> builds for this channel in \<open>ex_world\<close>, and the
  world after that allocation.\<close>

definition ex_io :: app_io_data where
  "ex_io = \<lparr>data_p = 1, io_lch = ex_channel, io_ch = Some ex_nvm_channel, n_pl = 2, pg_sz = 4,
             meta_sz = 2, buf_sz = 12, buf_p = 2, buf = [0, 0, 0, 0, 0, 0, 0, 0, 0, 0, 0, 0],
             pl_vec_p = 3, pl_vec = [Some 0, Some 6],
             oob_vec_p = 4, oob_vec = [Some 4, Some 5, Some 10, Some 11],
             sec_vec_p = 5,
             sec_vec = [Some (6, [Some 0, Some 2, Some 4]), Some (7, [Some 6, Some 8, Some 10]),
                        None, None]\<rparr>"

definition ex_world_io :: "flash world" where
  "ex_world_io = ex_world\<lparr>heap := \<lparr>h_count = 7, h_live = [7, 6, 5, 4, 3, 2, 1],
                                    h_log = [Malloc 1, Malloc 2, Malloc 3, Malloc 4, Malloc 5,
                                             Malloc 6, Malloc 7]\<rparr>\<rparr>"

text \<open>A flash device in which page \<open>0\<close> of block \<open>1\<close> (lun \<open>0\<close>, channel id \<open>7\<close>) carries the
  magic stamp in the out-of-band region of plane \<open>0\<close>, and no other page is written.\<close>

definition ex_flash_stamped :: flash where
  "ex_flash_stamped =
     \<lparr>cells = (\<lambda>a. if a = \<lparr>g_ch = 7, g_lun = 0, g_blk = 1, g_pl = 0, g_pg = 0\<rparr>
                      then Some [0, 0, 0, 0, 60, 0] else None),
      bad = (\<lambda>a. False)\<rparr>"

text \<open>The same device with the stamp on plane \<open>0\<close> of every page of block \<open>1\<close>.\<close>

definition ex_flash_full :: flash where
  "ex_flash_full =
     \<lparr>cells = (\<lambda>a. if g_ch a = 7 \<and> g_lun a = 0 \<and> g_blk a = 1 \<and> g_pl a = 0
                    then Some [0, 0, 0, 0, 60, 0] else None),
      bad = (\<lambda>a. False)\<rparr>"

section \<open>Properties\<close>

lemmas ex_defs = ex_geometry_def ex_nvm_channel_def ex_channel_def ex_flash_def ex_env_def
  ex_world_def ex_ppa_def

subsection \<open>Memory\<close>

lemma memrd_Some: "off + n \<le> length m \<Longrightarrow> memrd m off n = Some (take n (drop off m))"
  by (simp add: memrd_def)

lemma memwr_Some:
  "off + length bs \<le> length m \<Longrightarrow>
     memwr m off bs = Some (take off m @ bs @ drop (off + length bs) m)"
  by (simp add: memwr_def)

subsection \<open>The bad-block table\<close>

lemma get_bbtbl_bad_length:
  assumes "channels w (g_ch ppa) = Some lch" and "ch lch = Some c"
    and "n_of_planes (geometry c) < 65536"
    and "nb \<noteq> blk_per_lun (geometry c) * n_of_planes (geometry c)"
  shows "app_ftl_get_bbtbl ppa out nb w = Some (- 1, out)"
  using assms by (simp add: app_ftl_get_bbtbl_def)

lemma get_bbtbl_null_out:
  assumes "channels w (g_ch ppa) = Some lch" and "ch lch = Some c"
  shows "app_ftl_get_bbtbl ppa None nb w = Some (- 1, None)"
  using assms by (simp add: app_ftl_get_bbtbl_def)

lemma get_bbtbl_ok:
  assumes "channels w (g_ch ppa) = Some lch" and "ch lch = Some c"
    and "n_of_planes (geometry c) < 65536"
    and "nb = blk_per_lun (geometry c) * n_of_planes (geometry c)"
    and "nb \<le> length dst"
    and "g_lun ppa * blk_per_lun (geometry c) * n_of_planes (geometry c) + nb
           \<le> length (bbtbl lch)"
  shows "app_ftl_get_bbtbl ppa (Some dst) nb w =
           Some (0, Some (take nb (drop (g_lun ppa * blk_per_lun (geometry c)
                                          * n_of_planes (geometry c)) (bbtbl lch))
                          @ drop nb dst))"
proof -
  let ?l = "g_lun ppa * blk_per_lun (geometry c) * n_of_planes (geometry c)"
  have r: "memrd (bbtbl lch) ?l nb = Some (take nb (drop ?l (bbtbl lch)))"
    using assms(6) by (rule memrd_Some)
  have n: "length (take nb (drop ?l (bbtbl lch))) = nb"
    using assms(6) by simp
  have "memwr dst 0 (take nb (drop ?l (bbtbl lch))) =
          Some (take 0 dst @ take nb (drop ?l (bbtbl lch)) @
                drop (0 + length (take nb (drop ?l (bbtbl lch)))) dst)"
    by (rule memwr_Some) (use n assms(5) in simp)
  then have wq: "memwr dst 0 (take nb (drop ?l (bbtbl lch))) =
          Some (take nb (drop ?l (bbtbl lch)) @ drop nb dst)"
    using n by simp
  have chk: "nb = blk_per_lun (geometry c) * (n_of_planes (geometry c) mod 65536)"
    using assms(3,4) by simp
  show ?thesis
    unfolding app_ftl_get_bbtbl_def Let_def
    using assms(1,2) chk r wq by simp
qed

lemma set_bbtbl_channel:
  assumes "channels w (g_ch ppa) = Some lch" and "ch lch = Some c"
    and "g_blk ppa * n_of_planes (geometry c) + g_pl ppa
           < blk_per_lun (geometry c) * n_of_planes (geometry c)"
    and "idx = g_lun ppa * blk_per_lun (geometry c) * n_of_planes (geometry c)
                 + (g_blk ppa * n_of_planes (geometry c) + g_pl ppa)"
    and "idx < length (bbtbl lch)"
  shows "\<exists>w'. app_ftl_set_bbtbl env ppa v w = Some (0, w') \<and>
           channels w' (g_ch ppa) = Some (lch\<lparr>bbtbl := (bbtbl lch)[idx := v]\<rparr>)"
proof -
  have chk: "\<not> int (g_blk ppa * n_of_planes (geometry c) + g_pl ppa)
                 > int (blk_per_lun (geometry c) * n_of_planes (geometry c)) - 1"
    using assms(3) by linarith
  show ?thesis
    unfolding app_ftl_set_bbtbl_def Let_def
    using assms(1,2,5) chk
    by (simp add: assms(4) split: prod.splits del: of_nat_mult of_nat_add)
qed



text \<open>Claim C9. \<^verbatim>\<open>app_ftl_set_bbtbl\<close> and \<^verbatim>\<open>app_ftl_get_bbtbl\<close> use the same flat index
  \<open>lun * blk_per_lun * n_of_planes + blk * n_of_planes + pl\<close>: after a set of the value \<open>v\<close>
  at an address in bounds, a get for the same channel and lun with the valid length
  \<open>blk_per_lun * n_of_planes\<close> returns \<open>0\<close> and a slice of that length whose byte at index
  \<open>blk * n_of_planes + pl\<close> is \<open>v\<close>.\<close>

theorem set_then_get_bbtbl:
  assumes "channels w (g_ch ppa) = Some lch" and "ch lch = Some c"
    and "n_of_planes (geometry c) < 65536"
    and "g_blk ppa * n_of_planes (geometry c) + g_pl ppa
           < blk_per_lun (geometry c) * n_of_planes (geometry c)"
    and "(g_lun ppa + 1) * (blk_per_lun (geometry c) * n_of_planes (geometry c))
           \<le> length (bbtbl lch)"
    and "length dst = blk_per_lun (geometry c) * n_of_planes (geometry c)"
    and "g_ch ppa' = g_ch ppa" and "g_lun ppa' = g_lun ppa"
  shows "\<exists>w' slice.
           app_ftl_set_bbtbl env ppa v w = Some (0, w') \<and>
           app_ftl_get_bbtbl ppa' (Some dst)
             (blk_per_lun (geometry c) * n_of_planes (geometry c)) w' = Some (0, Some slice) \<and>
           length slice = blk_per_lun (geometry c) * n_of_planes (geometry c) \<and>
           slice ! (g_blk ppa * n_of_planes (geometry c) + g_pl ppa) = v"
proof -
  let ?g = "geometry c"
  let ?n = "blk_per_lun ?g * n_of_planes ?g"
  let ?l = "g_lun ppa * blk_per_lun ?g * n_of_planes ?g"
  let ?k = "g_blk ppa * n_of_planes ?g + g_pl ppa"
  let ?lch' = "lch\<lparr>bbtbl := (bbtbl lch)[?l + ?k := v]\<rparr>"
  have len: "?l + ?n \<le> length (bbtbl lch)"
    using assms(5) by (simp add: algebra_simps)
  have idx: "?l + ?k < length (bbtbl lch)"
    using len assms(4) by linarith
  from set_bbtbl_channel [OF assms(1,2,4) refl idx, of env v]
  obtain w' where s: "app_ftl_set_bbtbl env ppa v w = Some (0, w')"
    and c: "channels w' (g_ch ppa) = Some ?lch'"
    by blast
  have g: "app_ftl_get_bbtbl ppa' (Some dst) ?n w' =
             Some (0, Some (take ?n (drop ?l (bbtbl ?lch')) @ drop ?n dst))"
    using get_bbtbl_ok [of w' ppa' ?lch' c ?n dst] c assms(2,3,6,7,8) len
    by simp
  have "(take ?n (drop ?l (bbtbl ?lch')) @ drop ?n dst) ! ?k = v"
    using assms(4,6) len idx by (simp add: nth_append)
  moreover have "length (take ?n (drop ?l (bbtbl ?lch')) @ drop ?n dst) = ?n"
    using assms(6) len by simp
  ultimately show ?thesis using s g by blast
qed

theorem set_then_get_bbtbl_witness:
  "\<exists>w' slice.
     app_ftl_set_bbtbl ex_env ex_ppa 5 ex_world = Some (0, w') \<and>
     app_ftl_get_bbtbl (ex_ppa\<lparr>g_blk := 0, g_pl := 0\<rparr>) (Some [9, 9, 9, 9]) 4 w'
       = Some (0, Some slice) \<and>
     length slice = 4 \<and> slice ! 3 = 5"
proof -
  have 1: "channels ex_world (g_ch ex_ppa) = Some ex_channel"
    by (simp add: ex_world_def ex_ppa_def)
  have 2: "ch ex_channel = Some ex_nvm_channel"
    by (simp add: ex_channel_def)
  have 3: "n_of_planes (geometry ex_nvm_channel) < 65536"
    by (simp add: ex_nvm_channel_def ex_geometry_def)
  have 4: "g_blk ex_ppa * n_of_planes (geometry ex_nvm_channel) + g_pl ex_ppa
             < blk_per_lun (geometry ex_nvm_channel) * n_of_planes (geometry ex_nvm_channel)"
    by (simp add: ex_ppa_def ex_nvm_channel_def ex_geometry_def)
  have 5: "(g_lun ex_ppa + 1) * (blk_per_lun (geometry ex_nvm_channel)
              * n_of_planes (geometry ex_nvm_channel)) \<le> length (bbtbl ex_channel)"
    by (simp add: ex_ppa_def ex_nvm_channel_def ex_geometry_def ex_channel_def)
  have 6: "length [9, 9, 9, 9 :: byte] = blk_per_lun (geometry ex_nvm_channel)
              * n_of_planes (geometry ex_nvm_channel)"
    by (simp add: ex_nvm_channel_def ex_geometry_def)
  have 7: "g_ch (ex_ppa\<lparr>g_blk := 0, g_pl := 0\<rparr>) = g_ch ex_ppa"
    "g_lun (ex_ppa\<lparr>g_blk := 0, g_pl := 0\<rparr>) = g_lun ex_ppa"
    by simp_all
  have e: "blk_per_lun (geometry ex_nvm_channel) * n_of_planes (geometry ex_nvm_channel) = 4"
    "g_blk ex_ppa * n_of_planes (geometry ex_nvm_channel) + g_pl ex_ppa = 3"
    by (simp_all add: ex_ppa_def ex_nvm_channel_def ex_geometry_def)
  from set_then_get_bbtbl [OF 1 2 3 4 5 6 7, of ex_env 5]
  show ?thesis
    unfolding e .
qed

text \<open>Claim C7. With a length other than \<open>blk_per_lun * n_of_planes\<close>, or with a \<open>NULL\<close>
  output buffer, \<^verbatim>\<open>app_ftl_get_bbtbl\<close> returns \<open>-1\<close> and leaves the buffer alone
  (\<open>get_bbtbl_bad_length\<close>, \<open>get_bbtbl_null_out\<close>), and with the valid length it copies
  the slice of the lun (\<open>get_bbtbl_ok\<close>). For a channel whose pointer \<^verbatim>\<open>lch->ch\<close> is
  \<open>NULL\<close> the claimed result \<open>-1\<close> is not reached: the initialiser of \<^verbatim>\<open>l_addr\<close> reads
  \<^verbatim>\<open>ch->geometry\<close> before \<^verbatim>\<open>nvm_memcheck (ch)\<close> is evaluated, so the call has no defined
  result. The theorem evaluates the function at such a channel.\<close>

theorem get_bbtbl_null_channel:
  "app_ftl_get_bbtbl ex_ppa (Some [9, 9, 9, 9]) 4
     (ex_world\<lparr>channels := (\<lambda>n. Some (ex_channel\<lparr>ch := None\<rparr>))\<rparr>) = None"
  by (simp add: app_ftl_get_bbtbl_def)

subsection \<open>The physical I/O executor\<close>

lemma upt_head: "[pl..<Suc (pl + k)] = pl # [Suc pl..<Suc (pl + k)]"
  by (subst upt_rec) simp


lemma malloc_ok:
  "\<not> alloc_fails env (h_count (heap w)) \<Longrightarrow>
     malloc env w =
       (Some (Suc (h_count (heap w))),
        w\<lparr>heap := (heap w)\<lparr>h_count := Suc (h_count (heap w)),
                            h_live := Suc (h_count (heap w)) # h_live (heap w),
                            h_log := h_log (heap w) @ [Malloc (Suc (h_count (heap w)))]\<rparr>\<rparr>)"
  by (simp add: malloc_def Let_def)

lemma malloc_fail:
  "alloc_fails env (h_count (heap w)) \<Longrightarrow>
     malloc env w = (None, w\<lparr>heap := (heap w)\<lparr>h_count := Suc (h_count (heap w))\<rparr>\<rparr>)"
  by (simp add: malloc_def Let_def)

lemma free_head:
  "h_live (heap w) = a # L \<Longrightarrow>
     free a w = Some (w\<lparr>heap := (heap w)\<lparr>h_live := L, h_log := h_log (heap w) @ [Free a]\<rparr>\<rparr>)"
  by (simp add: free_def Let_def)






subsection \<open>Allocation of the I/O buffer\<close>


lemma hstate_self: "hstate w (h_count (heap w)) (h_live (heap w)) (h_log (heap w)) = w"
  by (simp add: hstate_def)

lemma hstate_hstate [simp]: "hstate (hstate w m live lg) m' live' lg' = hstate w m' live' lg'"
  by (simp add: hstate_def)

lemma hstate_fields [simp]:
  "heap (hstate w m live lg) = \<lparr>h_count = m, h_live = live, h_log = lg\<rparr>"
  "media (hstate w m live lg) = media w" "issued (hstate w m live lg) = issued w"
  "channels (hstate w m live lg) = channels w" "flushed (hstate w m live lg) = flushed w"
  by (simp_all add: hstate_def)

lemma malloc_hstate_ok:
  "\<not> alloc_fails env m \<Longrightarrow>
     malloc env (hstate w m live lg) =
       (Some (Suc m), hstate w (Suc m) (Suc m # live) (lg @ [Malloc (Suc m)]))"
  by (simp add: malloc_def hstate_def Let_def)

lemma malloc_hstate_fail:
  "alloc_fails env m \<Longrightarrow> malloc env (hstate w m live lg) = (None, hstate w (Suc m) live lg)"
  by (simp add: malloc_def hstate_def Let_def)

lemma free_hstate:
  "free a (hstate w m (a # live) lg) = Some (hstate w m live (lg @ [Free a]))"
  by (simp add: free_def hstate_def Let_def)

lemma fresh_0 [simp]: "fresh c 0 = []"
  by (simp add: fresh_def)

lemma fresh_Suc: "fresh c (Suc k) = fresh c k @ [Suc (c + k)]"
  by (simp add: fresh_def)

lemma fresh_Cons: "fresh c (Suc k) = Suc c # fresh (Suc c) k"
  by (simp add: fresh_def upt_head del: upt_Suc)

lemma fresh_add: "fresh c (a + b) = fresh c a @ fresh (c + a) b"
proof -
  have "[c..<c + a + b] = [c..<c + a] @ [c + a..<c + a + b]"
    by (rule upt_add_eq_append) simp
  then show ?thesis by (simp add: fresh_def add.assoc)
qed

lemma length_fresh [simp]: "length (fresh c k) = k"
  by (simp add: fresh_def)

lemma free_sec_run:
  assumes "\<forall>i<k. \<exists>row. rd sv i = Some (Suc (m + i), row)"
  shows "free_sec k sv (hstate w cnt (rev (fresh m k) @ live) lg) =
           Some (hstate w cnt live (lg @ map Free (rev (fresh m k))))"
  using assms
proof (induction k arbitrary: lg)
  case 0
  then show ?case by simp
next
  case (Suc k)
  from Suc.prems obtain row where r: "rd sv k = Some (Suc (m + k), row)" by auto
  have ih: "free_sec k sv (hstate w cnt (rev (fresh m k) @ live) (lg @ [Free (Suc (m + k))])) =
              Some (hstate w cnt live ((lg @ [Free (Suc (m + k))]) @ map Free (rev (fresh m k))))"
    using Suc.prems by (intro Suc.IH) simp
  show ?case
    using r ih by (simp add: fresh_Suc free_hstate)
qed

lemma alloc_sec_run:
  assumes "n \<le> length sv" and "pl \<le> n"
  shows "\<exists>k sv'.
           pl + k \<le> n \<and> (\<forall>j<k. \<not> alloc_fails env (m + j)) \<and> length sv' = length sv \<and>
           (\<forall>i<length sv. sv' ! i =
              (if pl \<le> i \<and> i < pl + k
               then Some (Suc (m + (i - pl)), replicate (sec_per_pg g + 1) None) else sv ! i)) \<and>
           (if pl + k = n
            then alloc_sec env g n pl sv (hstate w m live lg) =
                   Some (True, n, sv',
                         hstate w (m + k) (rev (fresh m k) @ live) (lg @ map Malloc (fresh m k)))
            else alloc_fails env (m + k) \<and>
                 alloc_sec env g n pl sv (hstate w m live lg) =
                   Some (False, pl + k, sv',
                         hstate w (Suc (m + k)) (rev (fresh m k) @ live)
                           (lg @ map Malloc (fresh m k))))"
  using assms
proof (induction "n - pl" arbitrary: pl sv m live lg)
  case 0
  then have "pl = n" by simp
  then have "alloc_sec env g n pl sv (hstate w m live lg) = Some (True, n, sv, hstate w m live lg)"
    by (subst alloc_sec.simps) simp
  with \<open>pl = n\<close> show ?case
    by (intro exI [of _ 0] exI [of _ sv]) auto
next
  case (Suc d)
  then have lt: "pl < n" by simp
  with Suc.prems have slot: "pl < length sv" by simp
  show ?case
  proof (cases "alloc_fails env m")
    case True
    then have "alloc_sec env g n pl sv (hstate w m live lg) =
                 Some (False, pl, sv, hstate w (Suc m) live lg)"
      using lt slot by (subst alloc_sec.simps) (simp add: malloc_hstate_fail)
    with True lt show ?thesis
      by (intro exI [of _ 0] exI [of _ sv]) auto
  next
    case False
    define sv1 where "sv1 = sv[pl := Some (Suc m, replicate (sec_per_pg g + 1) (None :: nat option))]"
    have unf: "alloc_sec env g n pl sv (hstate w m live lg) =
                 alloc_sec env g n (Suc pl) sv1
                   (hstate w (Suc m) (Suc m # live) (lg @ [Malloc (Suc m)]))"
      using lt slot False
      by (subst alloc_sec.simps) (simp add: malloc_hstate_ok wr_def sv1_def)
    have d: "d = n - Suc pl" using Suc(2) by simp
    have pre: "n \<le> length sv1" "Suc pl \<le> n" using Suc.prems lt by (simp_all add: sv1_def)
    from Suc(1) [OF d pre, of "Suc m" "Suc m # live" "lg @ [Malloc (Suc m)]"]
    obtain k sv' where
      k: "Suc pl + k \<le> n" and ok: "\<forall>j<k. \<not> alloc_fails env (Suc m + j)"
      and len: "length sv' = length sv1"
      and cont: "\<forall>i<length sv1. sv' ! i =
              (if Suc pl \<le> i \<and> i < Suc pl + k
               then Some (Suc (Suc m + (i - Suc pl)), replicate (sec_per_pg g + 1) None)
               else sv1 ! i)"
      and run: "if Suc pl + k = n
            then alloc_sec env g n (Suc pl) sv1
                   (hstate w (Suc m) (Suc m # live) (lg @ [Malloc (Suc m)])) =
                   Some (True, n, sv',
                         hstate w (Suc m + k) (rev (fresh (Suc m) k) @ Suc m # live)
                           ((lg @ [Malloc (Suc m)]) @ map Malloc (fresh (Suc m) k)))
            else alloc_fails env (Suc m + k) \<and>
                 alloc_sec env g n (Suc pl) sv1
                   (hstate w (Suc m) (Suc m # live) (lg @ [Malloc (Suc m)])) =
                   Some (False, Suc pl + k, sv',
                         hstate w (Suc (Suc m + k)) (rev (fresh (Suc m) k) @ Suc m # live)
                           ((lg @ [Malloc (Suc m)]) @ map Malloc (fresh (Suc m) k)))"
      by blast
    have 1: "pl + Suc k \<le> n" using k by simp
    have 2: "\<forall>j<Suc k. \<not> alloc_fails env (m + j)"
    proof (intro allI impI)
      fix j assume "j < Suc k"
      show "\<not> alloc_fails env (m + j)"
      proof (cases j)
        case 0
        with False show ?thesis by simp
      next
        case (Suc j')
        with \<open>j < Suc k\<close> ok show ?thesis by simp
      qed
    qed
    have 3: "length sv' = length sv" using len by (simp add: sv1_def)
    have 4: "\<forall>i<length sv. sv' ! i =
              (if pl \<le> i \<and> i < pl + Suc k
               then Some (Suc (m + (i - pl)), replicate (sec_per_pg g + 1) None) else sv ! i)"
    proof (intro allI impI)
      fix i assume i: "i < length sv"
      then have "i < length sv1" by (simp add: sv1_def)
      with cont have c: "sv' ! i =
              (if Suc pl \<le> i \<and> i < Suc pl + k
               then Some (Suc (Suc m + (i - Suc pl)), replicate (sec_per_pg g + 1) None)
               else sv1 ! i)" by blast
      show "sv' ! i = (if pl \<le> i \<and> i < pl + Suc k
               then Some (Suc (m + (i - pl)), replicate (sec_per_pg g + 1) None) else sv ! i)"
      proof (cases "i = pl")
        case True
        with c slot show ?thesis by (simp add: sv1_def)
      next
        case False
        with c i show ?thesis by (auto simp add: sv1_def Suc_diff_Suc)
      qed
    qed
    have fr: "rev (fresh (Suc m) k) @ Suc m # live = rev (fresh m (Suc k)) @ live"
      "(lg @ [Malloc (Suc m)]) @ map Malloc (fresh (Suc m) k) = lg @ map Malloc (fresh m (Suc k))"
      by (simp_all add: fresh_Cons)
    have 5: "if pl + Suc k = n
            then alloc_sec env g n pl sv (hstate w m live lg) =
                   Some (True, n, sv',
                         hstate w (m + Suc k) (rev (fresh m (Suc k)) @ live)
                           (lg @ map Malloc (fresh m (Suc k))))
            else alloc_fails env (m + Suc k) \<and>
                 alloc_sec env g n pl sv (hstate w m live lg) =
                   Some (False, pl + Suc k, sv',
                         hstate w (Suc (m + Suc k)) (rev (fresh m (Suc k)) @ live)
                           (lg @ map Malloc (fresh m (Suc k))))"
      using run unfolding unf fr by (simp split: if_splits)
    from 1 2 3 4 5 show ?thesis
      by (intro exI [of _ "Suc k"] exI [of _ sv']) (simp only: simp_thms)
  qed
qed


lemmas unwind_defs = FREE_def FREE_BUF_def FREE_VEC_def FREE_OOB_def FREE_SEC_def

lemma alloc_pg_io_stage5:
  assumes "ch lch = Some c"
    and "\<not> alloc_fails env c0" "\<not> alloc_fails env (Suc c0)"
      "\<not> alloc_fails env (Suc (Suc c0))" "\<not> alloc_fails env (Suc (Suc (Suc c0)))"
      "\<not> alloc_fails env (Suc (Suc (Suc (Suc c0))))"
  shows "app_alloc_pg_io env lch (hstate w c0 live lg) =
     (case alloc_sec env (geometry c) (n_of_planes (geometry c)) 0
             (replicate (sec_per_pl_pg (geometry c)) None)
             (hstate w (Suc (Suc (Suc (Suc (Suc c0)))))
                ([Suc (Suc (Suc (Suc (Suc c0)))), Suc (Suc (Suc (Suc c0))), Suc (Suc (Suc c0)),
                  Suc (Suc c0), Suc c0] @ live)
                (lg @ map Malloc [Suc c0, Suc (Suc c0), Suc (Suc (Suc c0)),
                                  Suc (Suc (Suc (Suc c0))), Suc (Suc (Suc (Suc (Suc c0))))])) of
        None \<Rightarrow> None
      | Some (ok, pl, sv, w6) \<Rightarrow>
          if \<not> ok
          then FREE_SEC (Suc c0) (Suc (Suc c0)) (Suc (Suc (Suc c0))) (Suc (Suc (Suc (Suc c0))))
                 (Suc (Suc (Suc (Suc (Suc c0))))) sv pl w6
          else
            (case app_pg_io_prepare lch
                    \<lparr>data_p = Suc c0, io_lch = lch, io_ch = ch lch,
                     n_pl = n_of_planes (geometry c), pg_sz = pg_size (geometry c),
                     meta_sz = sec_oob_sz (geometry c) * sec_per_pg (geometry c),
                     buf_sz = (pg_size (geometry c)
                                 + sec_oob_sz (geometry c) * sec_per_pg (geometry c))
                              * n_of_planes (geometry c),
                     buf_p = Suc (Suc c0),
                     buf = replicate ((pg_size (geometry c)
                                         + sec_oob_sz (geometry c) * sec_per_pg (geometry c))
                                      * n_of_planes (geometry c)) 0,
                     pl_vec_p = Suc (Suc (Suc c0)),
                     pl_vec = replicate (n_of_planes (geometry c)) None,
                     oob_vec_p = Suc (Suc (Suc (Suc c0))),
                     oob_vec = replicate (sec_per_pl_pg (geometry c)) None,
                     sec_vec_p = Suc (Suc (Suc (Suc (Suc c0)))), sec_vec = sv\<rparr> of
               None \<Rightarrow> None
             | Some d \<Rightarrow> Some (Some d, w6)))"
  using assms
  by (simp add: app_alloc_pg_io_def malloc_hstate_ok Let_def)

text \<open>Claim C5. Let the first allocation of \<^verbatim>\<open>app_alloc_pg_io\<close> that fails be request
  number \<open>j0\<close> of the call: \<open>0\<close> is the descriptor, \<open>1\<close> the contiguous buffer, \<open>2\<close>, \<open>3\<close> and
  \<open>4\<close> the arrays of plane, out-of-band and sector pointers, \<open>5 + pl\<close> the sector array of
  plane \<open>pl\<close>. Then the function returns \<open>NULL\<close>, and what it did to the allocator is: the
  \<open>j0\<close> blocks \<open>fresh c j0\<close> were acquired in this order and then released in the reverse
  order. The list of allocated blocks is what it was before the call, and nothing else
  of the world changed. (The geometry has a slot in \<open>sec_vec\<close> for every plane.)\<close>

theorem alloc_pg_io_unwinds:
  assumes "ch lch = Some c"
    and "n_of_planes (geometry c) \<le> sec_per_pl_pg (geometry c)"
    and "j0 < 5 + n_of_planes (geometry c)"
    and "alloc_fails env (h_count (heap w) + j0)"
    and "\<forall>j<j0. \<not> alloc_fails env (h_count (heap w) + j)"
  shows "\<exists>w'. app_alloc_pg_io env lch w = Some (None, w') \<and>
           h_log (heap w') = h_log (heap w) @ map Malloc (fresh (h_count (heap w)) j0)
                               @ map Free (rev (fresh (h_count (heap w)) j0)) \<and>
           h_live (heap w') = h_live (heap w) \<and>
           h_count (heap w') = Suc (h_count (heap w) + j0) \<and>
           media w' = media w \<and> issued w' = issued w \<and>
           channels w' = channels w \<and> flushed w' = flushed w"
proof -
  define c0 where "c0 = h_count (heap w)"
  define live where "live = h_live (heap w)"
  define lg where "lg = h_log (heap w)"
  define g where "g = geometry c"
  have w: "w = hstate w c0 live lg"
    by (simp add: c0_def live_def lg_def hstate_self)
  have fails: "alloc_fails env (c0 + j0)" using assms(4) by (simp add: c0_def)
  have nf: "\<not> alloc_fails env (c0 + j)" if "j < j0" for j
    using assms(5) that by (simp add: c0_def)
  have goal: "\<exists>w'. app_alloc_pg_io env lch w = Some (None, w') \<and>
           h_log (heap w') = lg @ map Malloc (fresh c0 j0) @ map Free (rev (fresh c0 j0)) \<and>
           h_live (heap w') = live \<and> h_count (heap w') = Suc (c0 + j0) \<and>
           media w' = media w \<and> issued w' = issued w \<and>
           channels w' = channels w \<and> flushed w' = flushed w"
    if run: "app_alloc_pg_io env lch (hstate w c0 live lg) =
               Some (None, hstate w (Suc (c0 + j0)) live
                             (lg @ map Malloc (fresh c0 j0) @ map Free (rev (fresh c0 j0))))"
    using run w by (metis hstate_fields heap.select_convs)
  consider "j0 = 0" | "j0 = 1" | "j0 = 2" | "j0 = 3" | "j0 = 4" | "5 \<le> j0"
    by linarith
  then have "app_alloc_pg_io env lch (hstate w c0 live lg) =
               Some (None, hstate w (Suc (c0 + j0)) live
                             (lg @ map Malloc (fresh c0 j0) @ map Free (rev (fresh c0 j0))))"
  proof cases
    case 1
    with fails show ?thesis
      by (simp add: app_alloc_pg_io_def malloc_hstate_fail)
  next
    case 2
    have "\<not> alloc_fails env c0" using nf [of 0] 2 by simp
    moreover have "alloc_fails env (Suc c0)" using fails 2 by simp
    ultimately show ?thesis
      using assms(1) 2
      by (simp add: app_alloc_pg_io_def malloc_hstate_fail malloc_hstate_ok unwind_defs
          free_hstate fresh_Cons Let_def)
  next
    case 3
    have "\<not> alloc_fails env c0" "\<not> alloc_fails env (Suc c0)"
      using nf [of 0] nf [of 1] 3 by simp_all
    moreover have "alloc_fails env (Suc (Suc c0))" using fails 3 by simp
    ultimately show ?thesis
      using assms(1) 3
      by (simp add: app_alloc_pg_io_def malloc_hstate_fail malloc_hstate_ok unwind_defs
          free_hstate fresh_Cons Let_def numeral_2_eq_2)
  next
    case 4
    have "\<not> alloc_fails env c0" "\<not> alloc_fails env (Suc c0)" "\<not> alloc_fails env (Suc (Suc c0))"
      using nf [of 0] nf [of 1] nf [of 2] 4 by (simp_all add: numeral_2_eq_2)
    moreover have "alloc_fails env (Suc (Suc (Suc c0)))"
      using fails 4 by (simp add: numeral_3_eq_3)
    ultimately show ?thesis
      using assms(1) 4
      by (simp add: app_alloc_pg_io_def malloc_hstate_fail malloc_hstate_ok unwind_defs
          free_hstate fresh_Cons Let_def numeral_3_eq_3)
  next
    case 5
    have "\<not> alloc_fails env c0" "\<not> alloc_fails env (Suc c0)" "\<not> alloc_fails env (Suc (Suc c0))"
      "\<not> alloc_fails env (Suc (Suc (Suc c0)))"
      using nf [of 0] nf [of 1] nf [of 2] nf [of 3] 5
      by (simp_all add: numeral_2_eq_2 numeral_3_eq_3)
    moreover have "alloc_fails env (Suc (Suc (Suc (Suc c0))))"
      using fails 5 by (simp add: eval_nat_numeral)
    moreover have "j0 = Suc (Suc (Suc (Suc 0)))" using 5 by simp
    ultimately show ?thesis
      using assms(1)
      by (simp add: app_alloc_pg_io_def malloc_hstate_fail malloc_hstate_ok unwind_defs
          free_hstate fresh_Cons Let_def)
  next
    case 6
    define k where "k = j0 - 5"
    define m where "m = Suc (Suc (Suc (Suc (Suc c0))))"
    define five where "five = [Suc c0, Suc (Suc c0), Suc (Suc (Suc c0)), Suc (Suc (Suc (Suc c0))),
                               Suc (Suc (Suc (Suc (Suc c0))))]"
    define live5 where "live5 = rev five @ live"
    define lg5 where "lg5 = lg @ map Malloc five"
    define sv0 where "sv0 = replicate (sec_per_pl_pg g) (None :: (addr \<times> nat option list) option)"
    have j0: "j0 = 5 + k" using 6 by (simp add: k_def)
    have kn: "k < n_of_planes g" using assms(3) j0 by (simp add: g_def)
    have early: "\<not> alloc_fails env c0" "\<not> alloc_fails env (Suc c0)"
      "\<not> alloc_fails env (Suc (Suc c0))" "\<not> alloc_fails env (Suc (Suc (Suc c0)))"
      "\<not> alloc_fails env (Suc (Suc (Suc (Suc c0))))"
      using nf [of 0] nf [of 1] nf [of 2] nf [of 3] nf [of 4] 6
      by (simp_all add: eval_nat_numeral)
    have fk: "alloc_fails env (m + k)"
      using fails j0 by (simp add: m_def eval_nat_numeral)
    have nfk: "\<not> alloc_fails env (m + j)" if "j < k" for j
      using nf [of "5 + j"] that j0 by (simp add: m_def eval_nat_numeral)
    have pre: "n_of_planes g \<le> length sv0" "0 \<le> n_of_planes g"
      using assms(2) by (simp_all add: sv0_def g_def)
    from alloc_sec_run [OF pre, of env m g w live5 lg5]
    obtain k' sv' where
      k': "0 + k' \<le> n_of_planes g" and ok: "\<forall>j<k'. \<not> alloc_fails env (m + j)"
      and len: "length sv' = length sv0"
      and cont: "\<forall>i<length sv0. sv' ! i =
              (if 0 \<le> i \<and> i < 0 + k'
               then Some (Suc (m + (i - 0)), replicate (sec_per_pg g + 1) None) else sv0 ! i)"
      and run: "if 0 + k' = n_of_planes g
            then alloc_sec env g (n_of_planes g) 0 sv0 (hstate w m live5 lg5) =
                   Some (True, n_of_planes g, sv',
                         hstate w (m + k') (rev (fresh m k') @ live5)
                           (lg5 @ map Malloc (fresh m k')))
            else alloc_fails env (m + k') \<and>
                 alloc_sec env g (n_of_planes g) 0 sv0 (hstate w m live5 lg5) =
                   Some (False, 0 + k', sv',
                         hstate w (Suc (m + k')) (rev (fresh m k') @ live5)
                           (lg5 @ map Malloc (fresh m k')))"
      by blast
    have "\<not> k < k'" using ok fk by blast
    moreover have "\<not> k' < k"
    proof
      assume "k' < k"
      then have "\<not> alloc_fails env (m + k')" "k' \<noteq> n_of_planes g"
        using nfk kn by simp_all
      with run show False by (simp split: if_splits)
    qed
    ultimately have kk: "k' = k" by simp
    have run': "alloc_sec env g (n_of_planes g) 0 sv0 (hstate w m live5 lg5) =
                  Some (False, k, sv',
                        hstate w (Suc (m + k)) (rev (fresh m k) @ live5)
                          (lg5 @ map Malloc (fresh m k)))"
      using run kn unfolding kk by (simp split: if_splits)
    have slots: "\<forall>i<k. \<exists>row. rd sv' i = Some (Suc (m + i), row)"
    proof (intro allI impI)
      fix i assume "i < k"
      then have "i < length sv0" using kn pre by simp
      with cont \<open>i < k\<close> have "sv' ! i = Some (Suc (m + i), replicate (sec_per_pg g + 1) None)"
        unfolding kk by simp
      with \<open>i < length sv0\<close> len show "\<exists>row. rd sv' i = Some (Suc (m + i), row)"
        by (simp add: rd_def)
    qed
    have fs: "free_sec k sv' (hstate w (Suc (m + k)) (rev (fresh m k) @ live5)
                                (lg5 @ map Malloc (fresh m k))) =
                Some (hstate w (Suc (m + k)) live5
                        ((lg5 @ map Malloc (fresh m k)) @ map Free (rev (fresh m k))))"
      by (rule free_sec_run [OF slots])
    have f5: "fresh c0 5 = five"
      by (simp add: eval_nat_numeral fresh_Cons five_def)
    have "m = c0 + 5" by (simp add: m_def)
    then have split: "fresh c0 j0 = five @ fresh m k"
      unfolding j0 f5 [symmetric] by (simp only: fresh_add)
    have cnt: "Suc (m + k) = Suc (c0 + j0)"
      by (simp add: m_def j0)
    have l5: "live5 = [m, Suc (Suc (Suc (Suc c0))), Suc (Suc (Suc c0)), Suc (Suc c0), Suc c0]
                        @ live"
      by (simp add: live5_def five_def m_def)
    have "app_alloc_pg_io env lch (hstate w c0 live lg) =
            FREE_SEC (Suc c0) (Suc (Suc c0)) (Suc (Suc (Suc c0))) (Suc (Suc (Suc (Suc c0)))) m
              sv' k (hstate w (Suc (m + k)) (rev (fresh m k) @ live5)
                       (lg5 @ map Malloc (fresh m k)))"
      using run'
      unfolding alloc_pg_io_stage5 [OF assms(1) early] g_def m_def sv0_def live5_def lg5_def
        five_def
      by simp
    also have "\<dots> = Some (None, hstate w (Suc (m + k)) live
               (((lg5 @ map Malloc (fresh m k)) @ map Free (rev (fresh m k)))
                  @ map Free (rev five)))"
      unfolding unwind_defs fs
      by (simp add: l5 free_hstate five_def m_def)
    finally show ?thesis
      unfolding cnt split lg5_def by simp
  qed
  from goal [OF this] show ?thesis
    by (simp add: c0_def live_def lg_def)
qed

theorem alloc_pg_io_unwinds_witness:
  "\<exists>w'. app_alloc_pg_io (ex_env\<lparr>alloc_fails := (\<lambda>n. n = 6)\<rparr>) ex_channel ex_world = Some (None, w') \<and>
     h_log (heap w') = [Malloc 1, Malloc 2, Malloc 3, Malloc 4, Malloc 5, Malloc 6,
                        Free 6, Free 5, Free 4, Free 3, Free 2, Free 1] \<and>
     h_live (heap w') = [] \<and> h_count (heap w') = 7"
proof -
  have 1: "ch ex_channel = Some ex_nvm_channel"
    by (simp add: ex_channel_def)
  have 2: "n_of_planes (geometry ex_nvm_channel) \<le> sec_per_pl_pg (geometry ex_nvm_channel)"
    by (simp add: ex_nvm_channel_def ex_geometry_def)
  have 3: "6 < 5 + n_of_planes (geometry ex_nvm_channel)"
    by (simp add: ex_nvm_channel_def ex_geometry_def)
  have 4: "alloc_fails (ex_env\<lparr>alloc_fails := (\<lambda>n. n = 6)\<rparr>) (h_count (heap ex_world) + 6)"
    by (simp add: ex_world_def)
  have 5: "\<forall>j<6. \<not> alloc_fails (ex_env\<lparr>alloc_fails := (\<lambda>n. n = 6)\<rparr>) (h_count (heap ex_world) + j)"
    by (simp add: ex_world_def)
  have f: "fresh 0 6 = [1, 2, 3, 4, 5, 6]"
    by code_simp
  have h: "h_count (heap ex_world) = 0" "h_log (heap ex_world) = []" "h_live (heap ex_world) = []"
    by (simp_all add: ex_world_def)
  from alloc_pg_io_unwinds [OF 1 2 3 4 5]
  obtain w' where
    "app_alloc_pg_io (ex_env\<lparr>alloc_fails := (\<lambda>n. n = 6)\<rparr>) ex_channel ex_world = Some (None, w')"
    "h_log (heap w') = [] @ map Malloc [1, 2, 3, 4, 5, 6] @ map Free (rev [1, 2, 3, 4, 5, 6])"
    "h_live (heap w') = []" "h_count (heap w') = Suc (0 + 6)"
    unfolding h f by blast
  then show ?thesis
    by (intro exI [of _ w']) simp
qed

subsection \<open>Layout of the I/O buffer\<close>


lemma prepare_sec_run:
  assumes "rd (pl_vec data) pl = Some p"
    and "sec_per_pg g * pl + sec_per_pg g \<le> length (oob_vec data)"
    and "pl < length (sec_vec data)" and "sec_vec data ! pl = Some (a, row)"
    and "sec_per_pg g \<le> length row"
  shows "\<exists>ov row'.
           prepare_sec g pl sec data =
             Some (data\<lparr>oob_vec := ov, sec_vec := (sec_vec data)[pl := Some (a, row')]\<rparr>) \<and>
           length ov = length (oob_vec data) \<and> length row' = length row \<and>
           (\<forall>i<length ov. ov ! i =
              (if sec_per_pg g * pl + sec \<le> i \<and> i < sec_per_pg g * pl + sec_per_pg g
               then Some (p + pg_sz data + sec_oob_sz g * (i - sec_per_pg g * pl))
               else oob_vec data ! i)) \<and>
           (\<forall>s < length row. row' ! s =
              (if sec \<le> s \<and> s < sec_per_pg g then Some (p + sec_size g * s) else row ! s))"
  using assms
proof (induction "sec_per_pg g - sec" arbitrary: sec data row)
  case 0
  then have fin: "\<not> sec < sec_per_pg g" by simp
  have "(sec_vec data)[pl := Some (a, row)] = sec_vec data"
    using 0(5) list_update_id [of "sec_vec data" pl] by simp
  then have eq: "data\<lparr>oob_vec := oob_vec data, sec_vec := (sec_vec data)[pl := Some (a, row)]\<rparr> = data"
    by simp
  have "prepare_sec g pl sec data = Some data"
    using fin by (subst prepare_sec.simps) simp
  with eq fin show ?case
    by (intro exI [of _ "oob_vec data"] exI [of _ row]) auto
next
  case (Suc d)
  then have lt: "sec < sec_per_pg g" by simp
  define ov1 where
    "ov1 = (oob_vec data)[sec_per_pg g * pl + sec := Some (p + pg_sz data + sec_oob_sz g * sec)]"
  define row1 where "row1 = row[sec := Some (p + sec_size g * sec)]"
  define sv1 where "sv1 = (sec_vec data)[pl := Some (a, row1)]"
  define data1 where "data1 = data\<lparr>oob_vec := ov1, sec_vec := sv1\<rparr>"
  have w1: "wr (oob_vec data) (sec_per_pg g * pl + sec) (p + pg_sz data + sec_oob_sz g * sec)
              = Some ov1"
    using lt Suc.prems(2) by (simp add: wr_def ov1_def)
  have r2: "rd (sec_vec data) pl = Some (a, row)"
    using Suc.prems(3,4) by (simp add: rd_def)
  have w3: "wr row sec (p + sec_size g * sec) = Some row1"
    using lt Suc.prems(5) by (simp add: wr_def row1_def)
  have w4: "wr (sec_vec data) pl (a, row1) = Some sv1"
    using Suc.prems(3) by (simp add: wr_def sv1_def)
  have unf: "prepare_sec g pl sec data = prepare_sec g pl (Suc sec) data1"
    using lt Suc.prems(1) w1 r2 w3 w4
    by (subst prepare_sec.simps) (simp add: data1_def)
  have d: "d = sec_per_pg g - Suc sec" using Suc(2) by simp
  have pre: "rd (pl_vec data1) pl = Some p"
    "sec_per_pg g * pl + sec_per_pg g \<le> length (oob_vec data1)"
    "pl < length (sec_vec data1)" "sec_vec data1 ! pl = Some (a, row1)"
    "sec_per_pg g \<le> length row1"
    using Suc.prems by (simp_all add: data1_def ov1_def sv1_def row1_def)
  from Suc(1) [OF d pre]
  obtain ov row' where
    run: "prepare_sec g pl (Suc sec) data1 =
            Some (data1\<lparr>oob_vec := ov, sec_vec := (sec_vec data1)[pl := Some (a, row')]\<rparr>)"
    and lo: "length ov = length (oob_vec data1)" and lr: "length row' = length row1"
    and co: "\<forall>i<length ov. ov ! i =
              (if sec_per_pg g * pl + Suc sec \<le> i \<and> i < sec_per_pg g * pl + sec_per_pg g
               then Some (p + pg_sz data1 + sec_oob_sz g * (i - sec_per_pg g * pl))
               else oob_vec data1 ! i)"
    and cr: "\<forall>s < length row1. row' ! s =
              (if Suc sec \<le> s \<and> s < sec_per_pg g then Some (p + sec_size g * s) else row1 ! s)"
    by blast
  have 1: "prepare_sec g pl sec data =
             Some (data\<lparr>oob_vec := ov, sec_vec := (sec_vec data)[pl := Some (a, row')]\<rparr>)"
    unfolding unf run by (simp add: data1_def sv1_def)
  have 2: "length ov = length (oob_vec data)" "length row' = length row"
    using lo lr by (simp_all add: data1_def ov1_def row1_def)
  have 3: "\<forall>i<length ov. ov ! i =
              (if sec_per_pg g * pl + sec \<le> i \<and> i < sec_per_pg g * pl + sec_per_pg g
               then Some (p + pg_sz data + sec_oob_sz g * (i - sec_per_pg g * pl))
               else oob_vec data ! i)"
  proof (intro allI impI)
    fix i assume i: "i < length ov"
    show "ov ! i =
              (if sec_per_pg g * pl + sec \<le> i \<and> i < sec_per_pg g * pl + sec_per_pg g
               then Some (p + pg_sz data + sec_oob_sz g * (i - sec_per_pg g * pl))
               else oob_vec data ! i)"
    proof (cases "i = sec_per_pg g * pl + sec")
      case True
      with co i lt 2 show ?thesis by (simp add: data1_def ov1_def)
    next
      case False
      with co i 2 show ?thesis by (auto simp add: data1_def ov1_def)
    qed
  qed
  have 4: "\<forall>s < length row. row' ! s =
              (if sec \<le> s \<and> s < sec_per_pg g then Some (p + sec_size g * s) else row ! s)"
  proof (intro allI impI)
    fix s assume s: "s < length row"
    show "row' ! s =
              (if sec \<le> s \<and> s < sec_per_pg g then Some (p + sec_size g * s) else row ! s)"
    proof (cases "s = sec")
      case True
      with cr s lt show ?thesis by (simp add: row1_def)
    next
      case False
      with cr s show ?thesis by (auto simp add: row1_def)
    qed
  qed
  from 1 2 3 4 show ?case by blast
qed


lemma slot_lt:
  fixes spp :: nat
  assumes "q < pl" and "s < spp"
  shows "spp * q + s < spp * pl"
proof -
  have "spp * q + s < spp * Suc q" using assms(2) by simp
  moreover have "spp * Suc q \<le> spp * pl"
    by (rule mult_le_mono2) (use assms(1) in simp)
  ultimately show ?thesis by linarith
qed

lemma prepare_pl_run:
  assumes "length (pl_vec data) = n_pl data"
    and "sec_per_pg g * n_pl data \<le> length (oob_vec data)"
    and "n_pl data \<le> length (sec_vec data)"
    and "0 < sec_per_pg g"
    and "\<forall>q. pl \<le> q \<and> q < n_pl data \<longrightarrow> plane_ready g data q"
    and "\<forall>q<pl. plane_laid g data q"
  shows "\<exists>pv ov sv.
           prepare_pl g pl data = Some (data\<lparr>pl_vec := pv, oob_vec := ov, sec_vec := sv\<rparr>) \<and>
           length pv = n_pl data \<and>
           (\<forall>q<n_pl data. plane_laid g (data\<lparr>pl_vec := pv, oob_vec := ov, sec_vec := sv\<rparr>) q)"
  using assms
proof (induction "n_pl data - pl" arbitrary: pl data)
  case 0
  then have fin: "\<not> pl < n_pl data" by simp
  have "prepare_pl g pl data = Some data"
    using fin by (subst prepare_pl.simps) simp
  moreover have "\<forall>q<n_pl data. plane_laid g data q"
    using 0(7) fin by simp
  ultimately show ?case
    using 0(2)
    by - (rule exI [of _ "pl_vec data"], rule exI [of _ "oob_vec data"],
          rule exI [of _ "sec_vec data"], simp)
next
  case (Suc d)
  let ?spp = "sec_per_pg g"
  let ?L = "buf_sz data div n_pl data"
  from Suc(2) have lt: "pl < n_pl data" by simp
  from Suc.prems(5) lt obtain a row where
    row: "sec_vec data ! pl = Some (a, row)" and lrow: "length row = ?spp + 1"
    by (auto simp: plane_ready_def)
  define p where "p = pl * ?L"
  define pv1 where "pv1 = (pl_vec data)[pl := Some p]"
  define data0 where "data0 = data\<lparr>pl_vec := pv1\<rparr>"
  have w0: "wr (pl_vec data) pl (pl * ?L) = Some pv1"
    using lt Suc.prems(1) by (simp add: wr_def pv1_def p_def)
  have slots: "?spp * pl + ?spp \<le> length (oob_vec data)"
  proof -
    have "?spp * pl + ?spp = ?spp * Suc pl" by simp
    also have "\<dots> \<le> ?spp * n_pl data"
      by (rule mult_le_mono2) (use lt in simp)
    finally show ?thesis using Suc.prems(2) by linarith
  qed
  have pre0: "rd (pl_vec data0) pl = Some p"
    "?spp * pl + ?spp \<le> length (oob_vec data0)"
    "pl < length (sec_vec data0)" "sec_vec data0 ! pl = Some (a, row)"
    "?spp \<le> length row"
    using lt Suc.prems(1,3) slots row lrow
    by (simp_all add: data0_def pv1_def rd_def)
  from prepare_sec_run [OF pre0, of 0]
  obtain ov row' where
    sec: "prepare_sec g pl 0 data0 =
            Some (data0\<lparr>oob_vec := ov, sec_vec := (sec_vec data0)[pl := Some (a, row')]\<rparr>)"
    and lo: "length ov = length (oob_vec data0)" and lr: "length row' = length row"
    and co: "\<forall>i<length ov. ov ! i =
              (if ?spp * pl + 0 \<le> i \<and> i < ?spp * pl + ?spp
               then Some (p + pg_sz data0 + sec_oob_sz g * (i - ?spp * pl))
               else oob_vec data0 ! i)"
    and cr: "\<forall>s < length row. row' ! s =
              (if 0 \<le> s \<and> s < ?spp then Some (p + sec_size g * s) else row ! s)"
    by blast
  define d1 where "d1 = data0\<lparr>oob_vec := ov, sec_vec := (sec_vec data0)[pl := Some (a, row')]\<rparr>"
  define row2 where "row2 = row'[?spp := Some (p + pg_sz data)]"
  define d2 where
    "d2 = data\<lparr>pl_vec := pv1, oob_vec := ov, sec_vec := (sec_vec data)[pl := Some (a, row2)]\<rparr>"
  have lov: "length ov = length (oob_vec data)" using lo by (simp add: data0_def)
  have first: "ov ! (?spp * pl) = Some (p + pg_sz data)"
    using co slots Suc.prems(4) lov by (simp add: data0_def)
  have r1: "rd (oob_vec d1) (?spp * pl) = Some (p + pg_sz data)"
    using first slots Suc.prems(4) lov by (simp add: d1_def rd_def)
  have r2: "rd (sec_vec d1) pl = Some (a, row')"
    using lt Suc.prems(3) by (simp add: d1_def data0_def rd_def)
  have w3: "wr row' ?spp (p + pg_sz data) = Some row2"
    using lr lrow by (simp add: wr_def row2_def)
  have w4: "wr (sec_vec d1) pl (a, row2) = Some ((sec_vec d1)[pl := Some (a, row2)])"
    using lt Suc.prems(3) by (simp add: wr_def d1_def data0_def)
  have d2': "d1\<lparr>sec_vec := (sec_vec d1)[pl := Some (a, row2)]\<rparr> = d2"
    by (simp add: d1_def d2_def data0_def)
  have unf: "prepare_pl g pl data = prepare_pl g (Suc pl) d2"
    using lt w0 sec r1 r2 w3 w4
    by (subst prepare_pl.simps) (simp add: data0_def [symmetric] d1_def [symmetric] d2')
  have d: "d = n_pl d2 - Suc pl" using Suc(2) by (simp add: d2_def)
  have L2: "buf_sz d2 = buf_sz data" "pg_sz d2 = pg_sz data" "n_pl d2 = n_pl data"
    by (simp_all add: d2_def)
  have pre: "length (pl_vec d2) = n_pl d2" "?spp * n_pl d2 \<le> length (oob_vec d2)"
    "n_pl d2 \<le> length (sec_vec d2)" "0 < ?spp"
    using Suc.prems(1,2,3,4) lov by (simp_all add: d2_def pv1_def)
  have ready: "\<forall>q. Suc pl \<le> q \<and> q < n_pl d2 \<longrightarrow> plane_ready g d2 q"
  proof (intro allI impI)
    fix q assume q: "Suc pl \<le> q \<and> q < n_pl d2"
    then have "plane_ready g data q" using Suc.prems(5) by (simp add: d2_def)
    moreover have "sec_vec d2 ! q = sec_vec data ! q" using q by (simp add: d2_def)
    ultimately show "plane_ready g d2 q" by (simp add: plane_ready_def)
  qed
  have laid: "\<forall>q<Suc pl. plane_laid g d2 q"
  proof (intro allI impI)
    fix q assume q: "q < Suc pl"
    show "plane_laid g d2 q"
    proof (cases "q = pl")
      case True
      have a1: "pl_vec d2 ! pl = Some (pl * ?L)"
        using lt Suc.prems(1) by (simp add: d2_def pv1_def p_def)
      have a2: "sec_vec d2 ! pl = Some (a, row2)"
        using lt Suc.prems(3) by (simp add: d2_def)
      have a3: "length row2 = ?spp + 1" using lr lrow by (simp add: row2_def)
      have a4: "\<forall>s < ?spp. row2 ! s = Some (pl * ?L + sec_size g * s)"
        using cr lrow by (simp add: row2_def p_def)
      have a5: "row2 ! ?spp = Some (pl * ?L + pg_sz data)"
        using lr lrow by (simp add: row2_def p_def)
      have a6: "\<forall>s < ?spp. oob_vec d2 ! (?spp * pl + s) =
                  Some (pl * ?L + pg_sz data + sec_oob_sz g * s)"
        using co slots lov by (simp add: d2_def data0_def p_def)
      show ?thesis
        unfolding plane_laid_def L2 True using a1 a2 a3 a4 a5 a6 by blast
    next
      case False
      with q have ql: "q < pl" by simp
      then have old: "plane_laid g data q" using Suc.prems(6) by simp
      have b1: "pl_vec d2 ! q = pl_vec data ! q" using False by (simp add: d2_def pv1_def)
      have b2: "sec_vec d2 ! q = sec_vec data ! q" using False by (simp add: d2_def)
      have b3: "oob_vec d2 ! (?spp * q + s) = oob_vec data ! (?spp * q + s)" if "s < ?spp" for s
      proof -
        have i: "?spp * q + s < ?spp * pl" using ql that by (rule slot_lt)
        then have "?spp * q + s < length ov" using slots lov by linarith
        with co i show ?thesis by (simp add: d2_def data0_def)
      qed
      show ?thesis
        using old unfolding plane_laid_def L2 b1 b2 by (simp add: b3)
    qed
  qed
  from Suc(1) [OF d pre ready laid]
  obtain pv ov' sv where
    run: "prepare_pl g (Suc pl) d2 = Some (d2\<lparr>pl_vec := pv, oob_vec := ov', sec_vec := sv\<rparr>)"
    and lpv: "length pv = n_pl d2"
    and all: "\<forall>q<n_pl d2. plane_laid g (d2\<lparr>pl_vec := pv, oob_vec := ov', sec_vec := sv\<rparr>) q"
    by blast
  have eq: "d2\<lparr>pl_vec := pv, oob_vec := ov', sec_vec := sv\<rparr> =
              data\<lparr>pl_vec := pv, oob_vec := ov', sec_vec := sv\<rparr>"
    by (simp add: d2_def)
  show ?case
    using run lpv all unfolding unf eq L2 by blast
qed

text \<open>Claim C6. When no allocation fails and the geometry is consistent (at least one
  sector per page, and \<open>sec_per_pl_pg\<close> slots for the \<open>sec_per_pg * n_of_planes\<close>
  out-of-band pointers), \<^verbatim>\<open>app_alloc_pg_io\<close> returns a descriptor whose buffer has exactly
  \<open>(pg_size + sec_oob_sz * sec_per_pg) * n_of_planes\<close> bytes, all zero, and whose pointer
  tables are: plane \<open>pl\<close> at offset \<open>pl * (pg_size + sec_oob_sz * sec_per_pg)\<close>; sector \<open>s\<close> of
  plane \<open>pl\<close> at that offset plus \<open>s * sec_size\<close>; the out-of-band pointer of \<open>(pl, s)\<close> at
  that offset plus \<open>pg_size + s * sec_oob_sz\<close>; and the sentinel, entry \<open>sec_per_pg\<close> of the
  plane's sector array, equal to the plane's first out-of-band pointer.\<close>

theorem alloc_pg_io_layout:
  assumes "ch lch = Some c" and "g = geometry c"
    and "\<forall>j<5 + n_of_planes g. \<not> alloc_fails env (h_count (heap w) + j)"
    and "0 < sec_per_pg g"
    and "sec_per_pg g * n_of_planes g \<le> sec_per_pl_pg g"
  shows "\<exists>io w'.
           app_alloc_pg_io env lch w = Some (Some io, w') \<and>
           n_pl io = n_of_planes g \<and> pg_sz io = pg_size g \<and>
           buf_sz io = (pg_size g + sec_oob_sz g * sec_per_pg g) * n_of_planes g \<and>
           buf io = replicate ((pg_size g + sec_oob_sz g * sec_per_pg g) * n_of_planes g) 0 \<and>
           length (pl_vec io) = n_of_planes g \<and>
           (\<forall>pl<n_of_planes g.
              pl_vec io ! pl = Some (pl * (pg_size g + sec_oob_sz g * sec_per_pg g)) \<and>
              (\<exists>a row.
                 sec_vec io ! pl = Some (a, row) \<and> length row = sec_per_pg g + 1 \<and>
                 (\<forall>s < sec_per_pg g.
                    row ! s = Some (pl * (pg_size g + sec_oob_sz g * sec_per_pg g)
                                    + s * sec_size g) \<and>
                    oob_vec io ! (sec_per_pg g * pl + s) =
                      Some (pl * (pg_size g + sec_oob_sz g * sec_per_pg g) + pg_size g
                            + s * sec_oob_sz g)) \<and>
                 row ! sec_per_pg g = oob_vec io ! (sec_per_pg g * pl)))"
proof -
  define c0 where "c0 = h_count (heap w)"
  define live where "live = h_live (heap w)"
  define lg where "lg = h_log (heap w)"
  define n where "n = n_of_planes g"
  define L where "L = pg_size g + sec_oob_sz g * sec_per_pg g"
  define m where "m = Suc (Suc (Suc (Suc (Suc c0))))"
  define five where "five = [Suc c0, Suc (Suc c0), Suc (Suc (Suc c0)), Suc (Suc (Suc (Suc c0))),
                             Suc (Suc (Suc (Suc (Suc c0))))]"
  define sv0 where "sv0 = replicate (sec_per_pl_pg g) (None :: (addr \<times> nat option list) option)"
  have w: "w = hstate w c0 live lg"
    by (simp add: c0_def live_def lg_def hstate_self)
  have nf: "\<not> alloc_fails env (c0 + j)" if "j < 5 + n" for j
    using assms(3) that by (simp add: c0_def n_def)
  have early: "\<not> alloc_fails env c0" "\<not> alloc_fails env (Suc c0)"
    "\<not> alloc_fails env (Suc (Suc c0))" "\<not> alloc_fails env (Suc (Suc (Suc c0)))"
    "\<not> alloc_fails env (Suc (Suc (Suc (Suc c0))))"
    using nf [of 0] nf [of 1] nf [of 2] nf [of 3] nf [of 4]
    by (simp_all add: eval_nat_numeral)
  have nfk: "\<not> alloc_fails env (m + j)" if "j < n" for j
    using nf [of "5 + j"] that by (simp add: m_def eval_nat_numeral)
  have nle: "n \<le> sec_per_pl_pg g"
  proof -
    have "n_of_planes g \<le> sec_per_pg g * n_of_planes g"
      using assms(4) by (cases "sec_per_pg g") simp_all
    then show ?thesis using assms(5) unfolding n_def by (rule order_trans)
  qed
  have pre: "n \<le> length sv0" "0 \<le> n"
    using nle by (simp_all add: sv0_def)
  from alloc_sec_run [OF pre, of env m g w "rev five @ live" "lg @ map Malloc five"]
  obtain k sv' where
    k: "0 + k \<le> n" and len: "length sv' = length sv0"
    and cont: "\<forall>i<length sv0. sv' ! i =
              (if 0 \<le> i \<and> i < 0 + k
               then Some (Suc (m + (i - 0)), replicate (sec_per_pg g + 1) None) else sv0 ! i)"
    and run: "if 0 + k = n
          then alloc_sec env g n 0 sv0 (hstate w m (rev five @ live) (lg @ map Malloc five)) =
                 Some (True, n, sv',
                       hstate w (m + k) (rev (fresh m k) @ rev five @ live)
                         ((lg @ map Malloc five) @ map Malloc (fresh m k)))
          else alloc_fails env (m + k) \<and>
               alloc_sec env g n 0 sv0 (hstate w m (rev five @ live) (lg @ map Malloc five)) =
                 Some (False, 0 + k, sv',
                       hstate w (Suc (m + k)) (rev (fresh m k) @ rev five @ live)
                         ((lg @ map Malloc five) @ map Malloc (fresh m k)))"
    by blast
  have kn: "k = n"
  proof (rule ccontr)
    assume "k \<noteq> n"
    with k have "k < n" by simp
    with nfk have "\<not> alloc_fails env (m + k)" by simp
    with run \<open>k \<noteq> n\<close> show False by (simp split: if_splits)
  qed
  define w' where "w' = hstate w (m + n) (rev (fresh m n) @ rev five @ live)
                          ((lg @ map Malloc five) @ map Malloc (fresh m n))"
  have run': "alloc_sec env g n 0 sv0 (hstate w m (rev five @ live) (lg @ map Malloc five)) =
                Some (True, n, sv', w')"
    using run unfolding kn w'_def by simp
  define data0 where
    "data0 = \<lparr>data_p = Suc c0, io_lch = lch, io_ch = ch lch, n_pl = n, pg_sz = pg_size g,
              meta_sz = sec_oob_sz g * sec_per_pg g, buf_sz = L * n,
              buf_p = Suc (Suc c0), buf = replicate (L * n) 0,
              pl_vec_p = Suc (Suc (Suc c0)), pl_vec = replicate n None,
              oob_vec_p = Suc (Suc (Suc (Suc c0))), oob_vec = replicate (sec_per_pl_pg g) None,
              sec_vec_p = m, sec_vec = sv'\<rparr>"
  have a5: "alloc_sec env (geometry c) (n_of_planes (geometry c)) 0
               (replicate (sec_per_pl_pg (geometry c)) None)
               (hstate w (Suc (Suc (Suc (Suc (Suc c0)))))
                  ([Suc (Suc (Suc (Suc (Suc c0)))), Suc (Suc (Suc (Suc c0))), Suc (Suc (Suc c0)),
                    Suc (Suc c0), Suc c0] @ live)
                  (lg @ map Malloc [Suc c0, Suc (Suc c0), Suc (Suc (Suc c0)),
                                    Suc (Suc (Suc (Suc c0))), Suc (Suc (Suc (Suc (Suc c0))))]))
             = Some (True, n, sv', w')"
    using run' by (simp add: assms(2) n_def sv0_def m_def five_def)
  have "app_alloc_pg_io env lch (hstate w c0 live lg) =
                 (case app_pg_io_prepare lch data0 of
                    None \<Rightarrow> None | Some d \<Rightarrow> Some (Some d, w'))"
    unfolding alloc_pg_io_stage5 [OF assms(1) early] a5
    by (simp add: data0_def assms(2) n_def L_def m_def)
  then have stage: "app_alloc_pg_io env lch w =
                 (case app_pg_io_prepare lch data0 of
                    None \<Rightarrow> None | Some d \<Rightarrow> Some (Some d, w'))"
    using w by simp
  have p1: "length (pl_vec data0) = n_pl data0" "sec_per_pg g * n_pl data0 \<le> length (oob_vec data0)"
    "n_pl data0 \<le> length (sec_vec data0)"
    using assms(5) nle len by (simp_all add: data0_def n_def sv0_def)
  have p2: "\<forall>q. 0 \<le> q \<and> q < n_pl data0 \<longrightarrow> plane_ready g data0 q"
  proof (intro allI impI)
    fix q assume "0 \<le> q \<and> q < n_pl data0"
    then have q: "q < n" by (simp add: data0_def)
    with pre have "q < length sv0" by simp
    with cont q have "sv' ! q = Some (Suc (m + q), replicate (sec_per_pg g + 1) None)"
      unfolding kn by simp
    then show "plane_ready g data0 q"
      by (simp add: plane_ready_def data0_def)
  qed
  have p3: "\<forall>q<0. plane_laid g data0 q" by simp
  from prepare_pl_run [OF p1 assms(4) p2 p3]
  obtain pv ov sv where
    prep: "prepare_pl g 0 data0 = Some (data0\<lparr>pl_vec := pv, oob_vec := ov, sec_vec := sv\<rparr>)"
    and lpv: "length pv = n_pl data0"
    and all: "\<forall>q<n_pl data0. plane_laid g (data0\<lparr>pl_vec := pv, oob_vec := ov, sec_vec := sv\<rparr>) q"
    by blast
  define io where "io = data0\<lparr>pl_vec := pv, oob_vec := ov, sec_vec := sv\<rparr>"
  have res: "app_alloc_pg_io env lch w = Some (Some io, w')"
    unfolding stage app_pg_io_prepare_def
    using assms(1,2) prep by (simp add: io_def)
  have f: "n_pl io = n" "pg_sz io = pg_size g" "buf_sz io = L * n" "buf io = replicate (L * n) 0"
    "length (pl_vec io) = n"
    using lpv by (simp_all add: io_def data0_def)
  have planes: "pl_vec io ! q = Some (q * L) \<and>
      (\<exists>a row.
         sec_vec io ! q = Some (a, row) \<and> length row = sec_per_pg g + 1 \<and>
         (\<forall>s < sec_per_pg g.
            row ! s = Some (q * L + s * sec_size g) \<and>
            oob_vec io ! (sec_per_pg g * q + s) = Some (q * L + pg_size g + s * sec_oob_sz g)) \<and>
         row ! sec_per_pg g = oob_vec io ! (sec_per_pg g * q))" if q: "q < n" for q
  proof -
    from q have "0 < n" by simp
    then have dv: "L * n div n = L" by simp
    from all q have "plane_laid g io q" by (simp add: io_def data0_def)
    then obtain a row where
      1: "pl_vec io ! q = Some (q * L)"
      and 2: "sec_vec io ! q = Some (a, row)" "length row = sec_per_pg g + 1"
      and 3: "\<forall>s < sec_per_pg g. row ! s = Some (q * L + sec_size g * s)"
      and 4: "row ! sec_per_pg g = Some (q * L + pg_size g)"
      and 5: "\<forall>s < sec_per_pg g.
                oob_vec io ! (sec_per_pg g * q + s) = Some (q * L + pg_size g + sec_oob_sz g * s)"
      unfolding plane_laid_def f dv by blast
    from 5 assms(4) have 6: "oob_vec io ! (sec_per_pg g * q) = Some (q * L + pg_size g)"
      by force
    from 1 2 3 4 5 6 show ?thesis
      by (simp add: mult.commute)
  qed
  show ?thesis
    using res f planes unfolding L_def n_def by blast
qed

theorem alloc_pg_io_layout_witness:
  "\<exists>io w'. app_alloc_pg_io ex_env ex_channel ex_world = Some (Some io, w') \<and>
     n_pl io = 2 \<and> buf io = replicate 12 0 \<and> length (pl_vec io) = 2 \<and>
     pl_vec io ! 1 = Some 6"
proof -
  have 1: "ch ex_channel = Some ex_nvm_channel"
    by (simp add: ex_channel_def)
  have 2: "ex_geometry = geometry ex_nvm_channel"
    by (simp add: ex_nvm_channel_def)
  have 3: "\<forall>j<5 + n_of_planes ex_geometry. \<not> alloc_fails ex_env (h_count (heap ex_world) + j)"
    by (simp add: ex_env_def)
  have 4: "0 < sec_per_pg ex_geometry"
    by (simp add: ex_geometry_def)
  have 5: "sec_per_pg ex_geometry * n_of_planes ex_geometry \<le> sec_per_pl_pg ex_geometry"
    by (simp add: ex_geometry_def)
  have n: "n_of_planes ex_geometry = 2"
    "pg_size ex_geometry + sec_oob_sz ex_geometry * sec_per_pg ex_geometry = 6"
    by (simp_all add: ex_geometry_def)
  from alloc_pg_io_layout [OF 1 2 3 4 5]
  obtain io w' where
    "app_alloc_pg_io ex_env ex_channel ex_world = Some (Some io, w')"
    "n_pl io = 2" "buf io = replicate (6 * 2) 0" "length (pl_vec io) = 2"
    and "\<forall>pl<2. pl_vec io ! pl = Some (pl * 6)"
    unfolding n by blast
  then show ?thesis
    by (intro exI [of _ io] exI [of _ w']) simp
qed

lemma ex_io_allocated:
  "map_option fst (app_alloc_pg_io ex_env ex_channel ex_world) = Some (Some ex_io)"
  "map_option (\<lambda>r. heap (snd r)) (app_alloc_pg_io ex_env ex_channel ex_world)
     = Some (heap ex_world_io)"
  by code_simp+

subsection \<open>A descriptor allocated and released\<close>

lemma prepare_sec_addrs:
  "prepare_sec g pl sec data = Some d \<Longrightarrow>
     map (map_option fst) (sec_vec d) = map (map_option fst) (sec_vec data)"
proof (induction g pl sec data rule: prepare_sec.induct)
  case (1 g pl sec data)
  show ?case
  proof (cases "sec < sec_per_pg g")
    case True
    from "1.prems" True obtain p ov a row row' sv where
      st: "rd (pl_vec data) pl = Some p"
      "wr (oob_vec data) (sec_per_pg g * pl + sec) (p + pg_sz data + sec_oob_sz g * sec) = Some ov"
      "rd (sec_vec data) pl = Some (a, row)"
      "wr row sec (p + sec_size g * sec) = Some row'"
      "wr (sec_vec data) pl (a, row') = Some sv"
      "prepare_sec g pl (Suc sec) (data\<lparr>oob_vec := ov, sec_vec := sv\<rparr>) = Some d"
      by (subst (asm) prepare_sec.simps) (auto simp: bind_eq_Some_conv)
    from st(3,5) have "map (map_option fst) sv = map (map_option fst) (sec_vec data)"
      by (auto simp add: rd_def wr_def map_update list_update_same_conv split: if_splits)
    moreover from "1.IH" [OF True st(1) st(2) st(3) refl st(4) st(5) st(6)]
    have "map (map_option fst) (sec_vec d) = map (map_option fst) sv" by simp
    ultimately show ?thesis by simp
  next
    case False
    with "1.prems" show ?thesis by (subst (asm) prepare_sec.simps) simp
  qed
qed


lemma prepare_pl_addrs:
  "prepare_pl g pl data = Some d \<Longrightarrow>
     map (map_option fst) (sec_vec d) = map (map_option fst) (sec_vec data)"
proof (induction g pl data rule: prepare_pl.induct)
  case (1 g pl data)
  show ?case
  proof (cases "pl < n_pl data")
    case True
    from "1.prems" True obtain pv d1 p a row row' sv where
      st: "wr (pl_vec data) pl (pl * (buf_sz data div n_pl data)) = Some pv"
      "prepare_sec g pl 0 (data\<lparr>pl_vec := pv\<rparr>) = Some d1"
      "rd (oob_vec d1) (sec_per_pg g * pl) = Some p"
      "rd (sec_vec d1) pl = Some (a, row)"
      "wr row (sec_per_pg g) p = Some row'"
      "wr (sec_vec d1) pl (a, row') = Some sv"
      "prepare_pl g (Suc pl) (d1\<lparr>sec_vec := sv\<rparr>) = Some d"
      by (subst (asm) prepare_pl.simps) (auto simp: bind_eq_Some_conv)
    from prepare_sec_addrs [OF st(2)]
    have "map (map_option fst) (sec_vec d1) = map (map_option fst) (sec_vec data)" by simp
    moreover from st(4,6) have "map (map_option fst) sv = map (map_option fst) (sec_vec d1)"
      by (auto simp add: rd_def wr_def map_update list_update_same_conv split: if_splits)
    moreover from "1.IH" [OF True st(1) st(2) st(3) st(4) refl st(5) st(6) st(7)]
    have "map (map_option fst) (sec_vec d) = map (map_option fst) sv" by simp
    ultimately show ?thesis by simp
  next
    case False
    with "1.prems" show ?thesis by (subst (asm) prepare_pl.simps) simp
  qed
qed

lemma free_member:
  assumes "a \<in> set (h_live (heap w))"
  shows "\<exists>w'. free a w = Some w' \<and> media w' = media w \<and> channels w' = channels w \<and>
              flushed w' = flushed w \<and>
              (\<forall>b. b \<noteq> a \<and> b \<in> set (h_live (heap w)) \<longrightarrow> b \<in> set (h_live (heap w')))"
  using assms by (simp add: free_def Let_def)

lemma free_pl_run:
  assumes "\<forall>q. pl \<le> q \<and> q < n_pl io \<longrightarrow>
             (\<exists>row. rd (sec_vec io) q = Some (b + q, row)) \<and> b + q \<in> set (h_live (heap w))"
  shows "\<exists>w'. free_pl io pl w = Some w' \<and> media w' = media w \<and>
              (\<forall>a. a < b + pl \<and> a \<in> set (h_live (heap w)) \<longrightarrow> a \<in> set (h_live (heap w')))"
  using assms
proof (induction "n_pl io - pl" arbitrary: pl w)
  case 0
  then have "free_pl io pl w = Some w" by (subst free_pl.simps) simp
  then show ?case by simp
next
  case (Suc d)
  from Suc(2) have lt: "pl < n_pl io" and d: "d = n_pl io - Suc pl" by simp_all
  from Suc.prems lt obtain row where
    slot: "rd (sec_vec io) pl = Some (b + pl, row)" and live: "b + pl \<in> set (h_live (heap w))"
    by (meson order_refl)
  from free_member [OF live] obtain w1 where
    f: "free (b + pl) w = Some w1" and m: "media w1 = media w"
    and keep: "\<forall>a. a \<noteq> b + pl \<and> a \<in> set (h_live (heap w)) \<longrightarrow> a \<in> set (h_live (heap w1))"
    by blast
  have unf: "free_pl io pl w = free_pl io (Suc pl) w1"
    using lt slot f by (subst free_pl.simps) simp
  have rest: "\<forall>q. Suc pl \<le> q \<and> q < n_pl io \<longrightarrow>
             (\<exists>row. rd (sec_vec io) q = Some (b + q, row)) \<and> b + q \<in> set (h_live (heap w1))"
  proof (intro allI impI)
    fix q assume q: "Suc pl \<le> q \<and> q < n_pl io"
    with Suc.prems have "(\<exists>row. rd (sec_vec io) q = Some (b + q, row))"
      and "b + q \<in> set (h_live (heap w))" by simp_all
    moreover from q have "b + q \<noteq> b + pl" by simp
    ultimately show "(\<exists>row. rd (sec_vec io) q = Some (b + q, row)) \<and>
                     b + q \<in> set (h_live (heap w1))"
      using keep by blast
  qed
  from Suc(1) [OF d rest] obtain w' where
    run: "free_pl io (Suc pl) w1 = Some w'" and m': "media w' = media w1"
    and keep': "\<forall>a. a < b + Suc pl \<and> a \<in> set (h_live (heap w1)) \<longrightarrow> a \<in> set (h_live (heap w'))"
    by blast
  have "\<forall>a. a < b + pl \<and> a \<in> set (h_live (heap w)) \<longrightarrow> a \<in> set (h_live (heap w'))"
  proof (intro allI impI)
    fix a assume a: "a < b + pl \<and> a \<in> set (h_live (heap w))"
    then have "a \<noteq> b + pl" by simp
    with a keep have "a \<in> set (h_live (heap w1))" by blast
    moreover from a have "a < b + Suc pl" by simp
    ultimately show "a \<in> set (h_live (heap w'))" using keep' by blast
  qed
  with unf run m m' show ?case by simp
qed

lemma free_pg_io_run:
  assumes "data_p io = Suc c0" and "buf_p io = Suc (Suc c0)"
    and "pl_vec_p io = Suc (Suc (Suc c0))" and "oob_vec_p io = Suc (Suc (Suc (Suc c0)))"
    and "sec_vec_p io = Suc (Suc (Suc (Suc (Suc c0))))"
    and "\<forall>q<n_pl io. \<exists>row. rd (sec_vec io) q = Some (Suc (Suc (Suc (Suc (Suc (Suc c0))))) + q, row)"
    and "\<forall>j<5 + n_pl io. Suc (c0 + j) \<in> set (h_live (heap w))"
  shows "\<exists>w'. app_free_pg_io io w = Some w' \<and> media w' = media w"
proof -
  let ?b = "Suc (Suc (Suc (Suc (Suc (Suc c0)))))"
  have five: "Suc c0 \<in> set (h_live (heap w))" "Suc (Suc c0) \<in> set (h_live (heap w))"
    "Suc (Suc (Suc c0)) \<in> set (h_live (heap w))"
    "Suc (Suc (Suc (Suc c0))) \<in> set (h_live (heap w))"
    "Suc (Suc (Suc (Suc (Suc c0)))) \<in> set (h_live (heap w))"
    using assms(7) [rule_format, of 0] assms(7) [rule_format, of 1] assms(7) [rule_format, of 2]
      assms(7) [rule_format, of 3] assms(7) [rule_format, of 4]
    by (simp_all add: eval_nat_numeral)
  have planes: "\<forall>q. 0 \<le> q \<and> q < n_pl io \<longrightarrow>
             (\<exists>row. rd (sec_vec io) q = Some (?b + q, row)) \<and> ?b + q \<in> set (h_live (heap w))"
  proof (intro allI impI)
    fix q assume q: "0 \<le> q \<and> q < n_pl io"
    then have "5 + q < 5 + n_pl io" by simp
    with assms(7) have "Suc (c0 + (5 + q)) \<in> set (h_live (heap w))" by blast
    moreover have "Suc (c0 + (5 + q)) = ?b + q" by (simp add: eval_nat_numeral)
    ultimately show "(\<exists>row. rd (sec_vec io) q = Some (?b + q, row)) \<and>
                     ?b + q \<in> set (h_live (heap w))"
      using assms(6) q by simp
  qed
  from free_pl_run [OF planes] obtain w1 where
    1: "free_pl io 0 w = Some w1" and m1: "media w1 = media w"
    and k1: "\<forall>a. a < ?b + 0 \<and> a \<in> set (h_live (heap w)) \<longrightarrow> a \<in> set (h_live (heap w1))"
    by blast
  from k1 five have l1: "Suc c0 \<in> set (h_live (heap w1))" "Suc (Suc c0) \<in> set (h_live (heap w1))"
    "Suc (Suc (Suc c0)) \<in> set (h_live (heap w1))"
    "Suc (Suc (Suc (Suc c0))) \<in> set (h_live (heap w1))"
    "Suc (Suc (Suc (Suc (Suc c0)))) \<in> set (h_live (heap w1))"
    by simp_all
  from free_member [OF l1(5)] obtain w2 where
    2: "free (Suc (Suc (Suc (Suc (Suc c0))))) w1 = Some w2" and m2: "media w2 = media w1"
    and k2: "\<forall>b. b \<noteq> Suc (Suc (Suc (Suc (Suc c0)))) \<and> b \<in> set (h_live (heap w1))
               \<longrightarrow> b \<in> set (h_live (heap w2))"
    by blast
  from k2 l1 have l2: "Suc c0 \<in> set (h_live (heap w2))" "Suc (Suc c0) \<in> set (h_live (heap w2))"
    "Suc (Suc (Suc c0)) \<in> set (h_live (heap w2))"
    "Suc (Suc (Suc (Suc c0))) \<in> set (h_live (heap w2))"
    by simp_all
  from free_member [OF l2(4)] obtain w3 where
    3: "free (Suc (Suc (Suc (Suc c0)))) w2 = Some w3" and m3: "media w3 = media w2"
    and k3: "\<forall>b. b \<noteq> Suc (Suc (Suc (Suc c0))) \<and> b \<in> set (h_live (heap w2))
               \<longrightarrow> b \<in> set (h_live (heap w3))"
    by blast
  from k3 l2 have l3: "Suc c0 \<in> set (h_live (heap w3))" "Suc (Suc c0) \<in> set (h_live (heap w3))"
    "Suc (Suc (Suc c0)) \<in> set (h_live (heap w3))"
    by simp_all
  from free_member [OF l3(3)] obtain w4 where
    4: "free (Suc (Suc (Suc c0))) w3 = Some w4" and m4: "media w4 = media w3"
    and k4: "\<forall>b. b \<noteq> Suc (Suc (Suc c0)) \<and> b \<in> set (h_live (heap w3))
               \<longrightarrow> b \<in> set (h_live (heap w4))"
    by blast
  from k4 l3 have l4: "Suc c0 \<in> set (h_live (heap w4))" "Suc (Suc c0) \<in> set (h_live (heap w4))"
    by simp_all
  from free_member [OF l4(2)] obtain w5 where
    5: "free (Suc (Suc c0)) w4 = Some w5" and m5: "media w5 = media w4"
    and k5: "\<forall>b. b \<noteq> Suc (Suc c0) \<and> b \<in> set (h_live (heap w4)) \<longrightarrow> b \<in> set (h_live (heap w5))"
    by blast
  from k5 l4 have l5: "Suc c0 \<in> set (h_live (heap w5))" by simp
  from free_member [OF l5] obtain w6 where
    6: "free (Suc c0) w5 = Some w6" and m6: "media w6 = media w5"
    by blast
  have "app_free_pg_io io w = Some w6"
    by (simp add: app_free_pg_io_def assms(1-5) 1 2 3 4 5 6)
  moreover have "media w6 = media w" using m1 m2 m3 m4 m5 m6 by simp
  ultimately show ?thesis by blast
qed
lemma alloc_pg_io_run:
  assumes "ch lch = Some c" and "g = geometry c"
    and "\<forall>j<5 + n_of_planes g. \<not> alloc_fails env (h_count (heap w) + j)"
    and "0 < sec_per_pg g"
    and "sec_per_pg g * n_of_planes g \<le> sec_per_pl_pg g"
  shows "\<exists>io w'.
           app_alloc_pg_io env lch w = Some (Some io, w') \<and> io_laid c io \<and>
           n_pl io = n_of_planes g \<and> media w' = media w \<and>
           data_p io = Suc (h_count (heap w)) \<and> buf_p io = Suc (Suc (h_count (heap w))) \<and>
           pl_vec_p io = Suc (Suc (Suc (h_count (heap w)))) \<and>
           oob_vec_p io = Suc (Suc (Suc (Suc (h_count (heap w))))) \<and>
           sec_vec_p io = Suc (Suc (Suc (Suc (Suc (h_count (heap w)))))) \<and>
           (\<forall>q<n_pl io. \<exists>row. rd (sec_vec io) q
              = Some (Suc (Suc (Suc (Suc (Suc (Suc (h_count (heap w))))))) + q, row)) \<and>
           (\<forall>j<5 + n_pl io. Suc (h_count (heap w) + j) \<in> set (h_live (heap w')))"
proof -
  define c0 where "c0 = h_count (heap w)"
  define live where "live = h_live (heap w)"
  define lg where "lg = h_log (heap w)"
  define n where "n = n_of_planes g"
  define L where "L = pg_size g + sec_oob_sz g * sec_per_pg g"
  define m where "m = Suc (Suc (Suc (Suc (Suc c0))))"
  define five where "five = [Suc c0, Suc (Suc c0), Suc (Suc (Suc c0)), Suc (Suc (Suc (Suc c0))),
                             Suc (Suc (Suc (Suc (Suc c0))))]"
  define sv0 where "sv0 = replicate (sec_per_pl_pg g) (None :: (addr \<times> nat option list) option)"
  have w: "w = hstate w c0 live lg"
    by (simp add: c0_def live_def lg_def hstate_self)
  have nf: "\<not> alloc_fails env (c0 + j)" if "j < 5 + n" for j
    using assms(3) that by (simp add: c0_def n_def)
  have early: "\<not> alloc_fails env c0" "\<not> alloc_fails env (Suc c0)"
    "\<not> alloc_fails env (Suc (Suc c0))" "\<not> alloc_fails env (Suc (Suc (Suc c0)))"
    "\<not> alloc_fails env (Suc (Suc (Suc (Suc c0))))"
    using nf [of 0] nf [of 1] nf [of 2] nf [of 3] nf [of 4]
    by (simp_all add: eval_nat_numeral)
  have nfk: "\<not> alloc_fails env (m + j)" if "j < n" for j
    using nf [of "5 + j"] that by (simp add: m_def eval_nat_numeral)
  have nle: "n \<le> sec_per_pl_pg g"
  proof -
    have "n_of_planes g \<le> sec_per_pg g * n_of_planes g"
      using assms(4) by (cases "sec_per_pg g") simp_all
    then show ?thesis using assms(5) unfolding n_def by (rule order_trans)
  qed
  have pre: "n \<le> length sv0" "0 \<le> n"
    using nle by (simp_all add: sv0_def)
  from alloc_sec_run [OF pre, of env m g w "rev five @ live" "lg @ map Malloc five"]
  obtain k sv' where
    k: "0 + k \<le> n" and len: "length sv' = length sv0"
    and cont: "\<forall>i<length sv0. sv' ! i =
              (if 0 \<le> i \<and> i < 0 + k
               then Some (Suc (m + (i - 0)), replicate (sec_per_pg g + 1) None) else sv0 ! i)"
    and run: "if 0 + k = n
          then alloc_sec env g n 0 sv0 (hstate w m (rev five @ live) (lg @ map Malloc five)) =
                 Some (True, n, sv',
                       hstate w (m + k) (rev (fresh m k) @ rev five @ live)
                         ((lg @ map Malloc five) @ map Malloc (fresh m k)))
          else alloc_fails env (m + k) \<and>
               alloc_sec env g n 0 sv0 (hstate w m (rev five @ live) (lg @ map Malloc five)) =
                 Some (False, 0 + k, sv',
                       hstate w (Suc (m + k)) (rev (fresh m k) @ rev five @ live)
                         ((lg @ map Malloc five) @ map Malloc (fresh m k)))"
    by blast
  have kn: "k = n"
  proof (rule ccontr)
    assume "k \<noteq> n"
    with k have "k < n" by simp
    with nfk have "\<not> alloc_fails env (m + k)" by simp
    with run \<open>k \<noteq> n\<close> show False by (simp split: if_splits)
  qed
  define w' where "w' = hstate w (m + n) (rev (fresh m n) @ rev five @ live)
                          ((lg @ map Malloc five) @ map Malloc (fresh m n))"
  have run': "alloc_sec env g n 0 sv0 (hstate w m (rev five @ live) (lg @ map Malloc five)) =
                Some (True, n, sv', w')"
    using run unfolding kn w'_def by simp
  define data0 where
    "data0 = \<lparr>data_p = Suc c0, io_lch = lch, io_ch = ch lch, n_pl = n, pg_sz = pg_size g,
              meta_sz = sec_oob_sz g * sec_per_pg g, buf_sz = L * n,
              buf_p = Suc (Suc c0), buf = replicate (L * n) 0,
              pl_vec_p = Suc (Suc (Suc c0)), pl_vec = replicate n None,
              oob_vec_p = Suc (Suc (Suc (Suc c0))), oob_vec = replicate (sec_per_pl_pg g) None,
              sec_vec_p = m, sec_vec = sv'\<rparr>"
  have a5: "alloc_sec env (geometry c) (n_of_planes (geometry c)) 0
               (replicate (sec_per_pl_pg (geometry c)) None)
               (hstate w (Suc (Suc (Suc (Suc (Suc c0)))))
                  ([Suc (Suc (Suc (Suc (Suc c0)))), Suc (Suc (Suc (Suc c0))), Suc (Suc (Suc c0)),
                    Suc (Suc c0), Suc c0] @ live)
                  (lg @ map Malloc [Suc c0, Suc (Suc c0), Suc (Suc (Suc c0)),
                                    Suc (Suc (Suc (Suc c0))), Suc (Suc (Suc (Suc (Suc c0))))]))
             = Some (True, n, sv', w')"
    using run' by (simp add: assms(2) n_def sv0_def m_def five_def)
  have "app_alloc_pg_io env lch (hstate w c0 live lg) =
                 (case app_pg_io_prepare lch data0 of
                    None \<Rightarrow> None | Some d \<Rightarrow> Some (Some d, w'))"
    unfolding alloc_pg_io_stage5 [OF assms(1) early] a5
    by (simp add: data0_def assms(2) n_def L_def m_def)
  then have stage: "app_alloc_pg_io env lch w =
                 (case app_pg_io_prepare lch data0 of
                    None \<Rightarrow> None | Some d \<Rightarrow> Some (Some d, w'))"
    using w by simp
  have p1: "length (pl_vec data0) = n_pl data0" "sec_per_pg g * n_pl data0 \<le> length (oob_vec data0)"
    "n_pl data0 \<le> length (sec_vec data0)"
    using assms(5) nle len by (simp_all add: data0_def n_def sv0_def)
  have p2: "\<forall>q. 0 \<le> q \<and> q < n_pl data0 \<longrightarrow> plane_ready g data0 q"
  proof (intro allI impI)
    fix q assume "0 \<le> q \<and> q < n_pl data0"
    then have q: "q < n" by (simp add: data0_def)
    with pre have "q < length sv0" by simp
    with cont q have "sv' ! q = Some (Suc (m + q), replicate (sec_per_pg g + 1) None)"
      unfolding kn by simp
    then show "plane_ready g data0 q"
      by (simp add: plane_ready_def data0_def)
  qed
  have p3: "\<forall>q<0. plane_laid g data0 q" by simp
  from prepare_pl_run [OF p1 assms(4) p2 p3]
  obtain pv ov sv where
    prep: "prepare_pl g 0 data0 = Some (data0\<lparr>pl_vec := pv, oob_vec := ov, sec_vec := sv\<rparr>)"
    and lpv: "length pv = n_pl data0"
    and all: "\<forall>q<n_pl data0. plane_laid g (data0\<lparr>pl_vec := pv, oob_vec := ov, sec_vec := sv\<rparr>) q"
    by blast
  define io where "io = data0\<lparr>pl_vec := pv, oob_vec := ov, sec_vec := sv\<rparr>"
  have res: "app_alloc_pg_io env lch w = Some (Some io, w')"
    unfolding stage app_pg_io_prepare_def
    using assms(1,2) prep by (simp add: io_def)
  have f: "n_pl io = n" "pg_sz io = pg_size g" "buf_sz io = L * n" "length (buf io) = L * n"
    "length (pl_vec io) = n" "io_ch io = Some c"
    using lpv assms(1) by (simp_all add: io_def data0_def)
  have pl: "rd (pl_vec io) q = Some (q * L)" if q: "q < n" for q
  proof -
    from q have "0 < n" by simp
    then have dv: "L * n div n = L" by simp
    from all q have "plane_laid g io q" by (simp add: io_def data0_def)
    then have "pl_vec io ! q = Some (q * L)"
      unfolding plane_laid_def f dv by blast
    with q f(5) show ?thesis by (simp add: rd_def)
  qed
  have L: "L = plane_len (geometry c)" by (simp add: L_def plane_len_def assms(2))
  have laid: "io_laid c io"
    unfolding io_laid_def using f pl by (simp add: L [symmetric] n_def assms(2) mult.commute)
  have ptr: "data_p io = Suc c0" "buf_p io = Suc (Suc c0)" "pl_vec_p io = Suc (Suc (Suc c0))"
    "oob_vec_p io = Suc (Suc (Suc (Suc c0)))" "sec_vec_p io = Suc (Suc (Suc (Suc (Suc c0))))"
    by (simp_all add: io_def data0_def m_def)
  from prepare_pl_addrs [OF prep]
  have addrs: "map (map_option fst) sv = map (map_option fst) sv'"
    by (simp add: data0_def)
  then have lsv: "length sv = length sv'" by (rule map_eq_imp_length_eq)
  have rows: "\<exists>row. rd (sec_vec io) q = Some (Suc m + q, row)" if q: "q < n" for q
  proof -
    from q pre have q0: "q < length sv0" by simp
    with len lsv have qs: "q < length sv" "q < length sv'" by simp_all
    from cont q q0 have "sv' ! q = Some (Suc (m + q), replicate (sec_per_pg g + 1) None)"
      unfolding kn by simp
    then have "map (map_option fst) sv' ! q = Some (Suc (m + q))" using qs by simp
    then have "map (map_option fst) sv ! q = Some (Suc (m + q))" unfolding addrs .
    then have "map_option fst (sv ! q) = Some (Suc (m + q))" using qs by simp
    then obtain row where "sv ! q = Some (Suc (m + q), row)" by auto
    with qs show ?thesis by (simp add: rd_def io_def)
  qed
  have live': "h_live (heap w') = rev (fresh m n) @ rev five @ live"
    by (simp add: w'_def)
  have mem: "Suc (c0 + j) \<in> set (h_live (heap w'))" if j: "j < 5 + n" for j
  proof (cases "j < 5")
    case True
    then have "j = 0 \<or> j = 1 \<or> j = 2 \<or> j = 3 \<or> j = 4" by linarith
    then have "Suc (c0 + j) \<in> set five" by (auto simp add: five_def)
    then show ?thesis by (simp add: live')
  next
    case False
    with j have "j - 5 < n" by simp
    then have "Suc (m + (j - 5)) \<in> set (fresh m n)" by (simp add: fresh_def)
    moreover from False have "Suc (m + (j - 5)) = Suc (c0 + j)" by (simp add: m_def)
    ultimately show ?thesis by (simp add: live')
  qed
  have mw: "media w' = media w" by (simp add: w'_def)
  from res laid f(1) mw ptr rows mem show ?thesis
    unfolding c0_def [symmetric] n_def [symmetric]
    by (intro exI [of _ io] exI [of _ w']) (simp add: m_def)
qed

subsection \<open>The recency scanner\<close>


lemma length_flash_page [simp]: "length (flash_page f len a) = len"
  by (auto simp add: flash_page_def min_def split: option.splits)

lemma flash_read_loop:
  assumes "submit env = flash_submit"
    and "\<forall>p<n_of_planes (geometry c). rd plv p = Some (p * plane_len (geometry c))"
    and "length mem = n_of_planes (geometry c) * plane_len (geometry c)"
    and "media w = f"
  shows "\<exists>r mem' w'.
           plane_loop env c MMGR_READ_PG plv mk pl b ret (mem, w) = Some (r, mem', w') \<and>
           length mem' = length mem \<and> media w' = f \<and> heap w' = heap w \<and>
           channels w' = channels w \<and> flushed w' = flushed w \<and>
           (if \<forall>p. pl \<le> p \<and> p < n_of_planes (geometry c) \<longrightarrow> \<not> bad f (mk p)
            then r = (if pl < n_of_planes (geometry c) then 0 else ret) \<and>
                 mem' = take (pl * plane_len (geometry c)) mem @
                        concat (map (\<lambda>p. flash_page f (plane_len (geometry c)) (mk p))
                                  [pl..<n_of_planes (geometry c)])
            else r \<noteq> 0)"
  using assms(3,4)
proof (induction "n_of_planes (geometry c) - pl" arbitrary: pl b ret mem w)
  case 0
  then have "plane_loop env c MMGR_READ_PG plv mk pl b ret (mem, w) = Some (ret, mem, w)"
    by (subst plane_loop.simps) simp
  with 0 show ?case by auto
next
  case (Suc d)
  let ?n = "n_of_planes (geometry c)"
  let ?len = "plane_len (geometry c)"
  from Suc(2) have lt: "pl < ?n" by simp
  with assms(2) have p: "rd plv pl = Some (pl * ?len)" by simp
  have fit: "pl * ?len + ?len \<le> length mem"
  proof -
    have "pl * ?len + ?len = Suc pl * ?len" by simp
    also have "\<dots> \<le> ?n * ?len" by (rule mult_le_mono1) (use lt in simp)
    finally show ?thesis using Suc.prems(1) by simp
  qed
  show ?case
  proof (cases "bad f (mk pl)")
    case True
    define w1 where "w1 = w\<lparr>media := f, issued := issued w @
       [\<lparr>call_ch = c, call_ppa = mk pl, call_buf = Some (pl * ?len), call_type = MMGR_READ_PG,
         call_ret = - 1\<rparr>]\<rparr>"
    have "plane_loop env c MMGR_READ_PG plv mk pl b ret (mem, w) = Some (- 1, mem, w1)"
      using lt p True Suc.prems(2) assms(1)
      by (subst plane_loop.simps)
         (simp add: nvm_submit_sync_io_def flash_submit_def w1_def Let_def)
    moreover have "\<not> (\<forall>p. pl \<le> p \<and> p < ?n \<longrightarrow> \<not> bad f (mk p))"
      using True lt by auto
    ultimately show ?thesis
      using lt by (auto simp add: w1_def)
  next
    case False
    define mem1 where
      "mem1 = take (pl * ?len) mem @ flash_page f ?len (mk pl) @ drop (pl * ?len + ?len) mem"
    define w1 where "w1 = w\<lparr>media := f, issued := issued w @
       [\<lparr>call_ch = c, call_ppa = mk pl, call_buf = Some (pl * ?len), call_type = MMGR_READ_PG,
         call_ret = 0\<rparr>]\<rparr>"
    have unf: "plane_loop env c MMGR_READ_PG plv mk pl b ret (mem, w) =
                 plane_loop env c MMGR_READ_PG plv mk (Suc pl) (Some (pl * ?len)) 0 (mem1, w1)"
      using lt p False Suc.prems(2) assms(1) fit
      by (subst plane_loop.simps)
         (simp add: nvm_submit_sync_io_def flash_submit_def w1_def mem1_def Let_def)
    have l1: "length mem1 = length mem"
      using fit by (simp add: mem1_def)
    have d: "d = ?n - Suc pl" using Suc(2) by simp
    have pre: "length mem1 = ?n * ?len" "media w1 = f"
      using l1 Suc.prems(1) by (simp_all add: w1_def)
    from Suc(1) [OF d pre, of "Some (pl * ?len)" 0]
    obtain r mem' w' where
      run: "plane_loop env c MMGR_READ_PG plv mk (Suc pl) (Some (pl * ?len)) 0 (mem1, w1)
              = Some (r, mem', w')"
      and fr: "length mem' = length mem1" "media w' = f" "heap w' = heap w1"
        "channels w' = channels w1" "flushed w' = flushed w1"
      and res: "if \<forall>p. Suc pl \<le> p \<and> p < ?n \<longrightarrow> \<not> bad f (mk p)
            then r = (if Suc pl < ?n then 0 else 0) \<and>
                 mem' = take (Suc pl * ?len) mem1 @
                        concat (map (\<lambda>p. flash_page f ?len (mk p)) [Suc pl..<?n])
            else r \<noteq> 0"
      by blast
    have tk: "take (Suc pl * ?len) mem1 = take (pl * ?len) mem @ flash_page f ?len (mk pl)"
      using fit by (simp add: mem1_def)
    have all: "(\<forall>p. pl \<le> p \<and> p < ?n \<longrightarrow> \<not> bad f (mk p)) \<longleftrightarrow>
               (\<forall>p. Suc pl \<le> p \<and> p < ?n \<longrightarrow> \<not> bad f (mk p))"
      using False by (metis Suc_leI le_neq_implies_less Suc_leD)
    have up: "[pl..<?n] = pl # [Suc pl..<?n]"
      using lt by (simp add: upt_conv_Cons)
    have fin: "if \<forall>p. pl \<le> p \<and> p < ?n \<longrightarrow> \<not> bad f (mk p)
            then r = (if pl < ?n then 0 else ret) \<and>
                 mem' = take (pl * ?len) mem @
                        concat (map (\<lambda>p. flash_page f ?len (mk p)) [pl..<?n])
            else r \<noteq> 0"
      using res lt unfolding all tk up by (simp split: if_splits)
    show ?thesis
      unfolding unf run using fr l1 fin by (simp add: w1_def)
  qed
qed


lemma rsv_read_flash:
  assumes "submit env = flash_submit" and "\<not> alloc_fails env (h_count (heap w))"
    and "ch lch = Some c" and "0 < n_of_planes (geometry c)"
    and "\<forall>p<n_of_planes (geometry c). rd plv p = Some (p * plane_len (geometry c))"
    and "length mem = n_of_planes (geometry c) * plane_len (geometry c)"
    and "media w = f"
  shows "\<exists>r mem' w'.
           app_io_rsv_blk env lch MMGR_READ_PG plv blk pg (mem, w) = Some (r, mem', w') \<and>
           length mem' = length mem \<and> media w' = f \<and>
           channels w' = channels w \<and> flushed w' = flushed w \<and>
           h_live (heap w') = h_live (heap w) \<and>
           (if page_readable f c blk pg
            then r = 0 \<and>
                 mem' = concat (map (\<lambda>p. flash_page f (plane_len (geometry c))
                                             (rsv_addr c blk pg p))
                                  [0..<n_of_planes (geometry c)])
            else r \<noteq> 0)"
proof -
  define a where "a = Suc (h_count (heap w))"
  define w1 where
    "w1 = w\<lparr>heap := (heap w)\<lparr>h_count := a, h_live := a # h_live (heap w),
                              h_log := h_log (heap w) @ [Malloc a]\<rparr>\<rparr>"
  have m: "malloc env w = (Some a, w1)"
    using malloc_ok [OF assms(2)] by (simp add: a_def w1_def)
  have mk: "(\<lambda>pl. \<lparr>g_ch = ch_mmgr_id c, g_lun = 0, g_blk = blk, g_pl = pl, g_pg = pg\<rparr>)
              = rsv_addr c blk pg"
    by (simp add: rsv_addr_def fun_eq_iff)
  have m1: "media w1 = f" using assms(7) by (simp add: w1_def)
  from flash_read_loop [OF assms(1,5,6) m1, of "rsv_addr c blk pg" 0 None "- 1"]
  obtain r mem' w2 where
    run: "plane_loop env c MMGR_READ_PG plv (rsv_addr c blk pg) 0 None (- 1) (mem, w1)
            = Some (r, mem', w2)"
    and fr: "length mem' = length mem" "media w2 = f" "heap w2 = heap w1"
      "channels w2 = channels w1" "flushed w2 = flushed w1"
    and res: "if \<forall>p. 0 \<le> p \<and> p < n_of_planes (geometry c) \<longrightarrow> \<not> bad f (rsv_addr c blk pg p)
          then r = (if 0 < n_of_planes (geometry c) then 0 else - 1) \<and>
               mem' = take (0 * plane_len (geometry c)) mem @
                      concat (map (\<lambda>p. flash_page f (plane_len (geometry c))
                                          (rsv_addr c blk pg p))
                                [0..<n_of_planes (geometry c)])
          else r \<noteq> 0"
    by blast
  have live: "h_live (heap w2) = a # h_live (heap w)"
    using fr(3) by (simp add: w1_def)
  define w3 where
    "w3 = w2\<lparr>heap := (heap w2)\<lparr>h_live := h_live (heap w),
                                h_log := h_log (heap w2) @ [Free a]\<rparr>\<rparr>"
  have free: "free a w2 = Some w3"
    using free_head [OF live] by (simp add: w3_def)
  have 1: "app_io_rsv_blk env lch MMGR_READ_PG plv blk pg (mem, w) = Some (r, mem', w3)"
    by (simp add: app_io_rsv_blk_def m assms(3) mk run free)
  have 2: "media w3 = f" "channels w3 = channels w" "flushed w3 = flushed w"
    "h_live (heap w3) = h_live (heap w)"
    using fr by (simp_all add: w3_def w1_def)
  have 3: "if page_readable f c blk pg
            then r = 0 \<and>
                 mem' = concat (map (\<lambda>p. flash_page f (plane_len (geometry c))
                                             (rsv_addr c blk pg p))
                                  [0..<n_of_planes (geometry c)])
            else r \<noteq> 0"
    using res assms(4) by (simp add: page_readable_def split: if_splits)
  from 1 2 3 fr(1) show ?thesis by blast
qed

lemma u16_conv:
  assumes "k < 65536"
  shows "nat (int k mod 65536) = k"
proof -
  have "int k mod 65536 = int k"
    by (rule mod_pos_pos_trivial) (use assms in simp_all)
  then show ?thesis by simp
qed

lemma one_plane_fits: "0 < (n::nat) \<Longrightarrow> len \<le> n * len"
  by (cases n) simp_all

lemma scan_step:
  assumes "memset0 mem (buf_sz io) = Some mem0" and "nat (pg mod 65536) = k"
    and "app_io_rsv_blk env lch MMGR_READ_PG (pl_vec io) blk k (mem0, w) = Some (r, mem1, w1)"
    and "memrd mem1 (pg_sz io) (magic_sz env) = Some oob"
  shows "scan_pages env lch io blk stride pg (mem, w) =
           (if r \<noteq> 0 \<or> \<not> is_magic env oob then Some (r, pg, mem1, w1)
            else case io_ch io of
                   None \<Rightarrow> None
                 | Some c \<Rightarrow>
                     if pg + int stride < int (pg_per_blk (geometry c)) - int stride
                     then scan_pages env lch io blk stride (pg + int stride) (mem1, w1)
                     else Some (r, pg + int stride, mem1, w1))"
  by (subst scan_pages.simps) (simp add: assms)

lemma scan_from:
  assumes env: "submit env = flash_submit" "\<forall>k. \<not> alloc_fails env k"
    and wf: "ch lch = Some c" "io_ch io = Some c" "0 < n_of_planes (geometry c)"
      "\<forall>p<n_of_planes (geometry c). rd (pl_vec io) p = Some (p * plane_len (geometry c))"
      "buf_sz io = n_of_planes (geometry c) * plane_len (geometry c)"
      "pg_sz io = pg_size (geometry c)"
      "pg_size (geometry c) + magic_sz env \<le> plane_len (geometry c)"
    and st: "length mem = buf_sz io" "media w = f"
    and pre: "\<forall>i. j \<le> i \<and> i < m \<longrightarrow>
                page_readable f c blk (i * stride) \<and> page_stamped env f c blk (i * stride)"
      "\<forall>i. j < i \<and> i < m \<longrightarrow> int (i * stride) < int (pg_per_blk (geometry c)) - int stride"
      "j \<le> m" "m * stride < 65536"
    and fin: "scanned \<longleftrightarrow> (m = j \<or> int (m * stride) < int (pg_per_blk (geometry c)) - int stride)"
      "scanned \<longrightarrow> \<not> (page_readable f c blk (m * stride) \<and> page_stamped env f c blk (m * stride))"
  shows "\<exists>ret mem' w'.
           scan_pages env lch io blk stride (int (j * stride)) (mem, w)
             = Some (ret, int (m * stride), mem', w') \<and>
           (ret = 0 \<longleftrightarrow> \<not> (scanned \<and> \<not> page_readable f c blk (m * stride))) \<and>
           media w' = f \<and> channels w' = channels w \<and> flushed w' = flushed w \<and>
           h_live (heap w') = h_live (heap w)"
  using st pre fin
proof (induction "m - j" arbitrary: j mem w scanned)
  case 0
  let ?n = "n_of_planes (geometry c)"
  let ?len = "plane_len (geometry c)"
  from 0 have jm: "j = m" by simp
  from 0(8,9) jm have sc: "scanned" and stop:
    "\<not> (page_readable f c blk (m * stride) \<and> page_stamped env f c blk (m * stride))"
    by simp_all
  have ms: "memset0 mem (buf_sz io) = Some (replicate (buf_sz io) 0)"
    using 0(2) by (auto simp add: memset0_def memwr_def)
  have pgc: "nat (int (m * stride) mod 65536) = m * stride"
    using 0(7) by (rule u16_conv)
  have nf: "\<not> alloc_fails env (h_count (heap w))" using env(2) by simp
  have l0: "length (replicate (buf_sz io) (0 :: byte)) = ?n * ?len" using wf(5) by simp
  from rsv_read_flash [OF env(1) nf wf(1,3,4) l0 0(3), of blk "m * stride"]
  obtain r mem1 w1 where
    rd: "app_io_rsv_blk env lch MMGR_READ_PG (pl_vec io) blk (m * stride)
           (replicate (buf_sz io) 0, w) = Some (r, mem1, w1)"
    and l1: "length mem1 = length (replicate (buf_sz io) (0 :: byte))"
    and fr: "media w1 = f" "channels w1 = channels w" "flushed w1 = flushed w"
      "h_live (heap w1) = h_live (heap w)"
    and res: "if page_readable f c blk (m * stride)
            then r = 0 \<and> mem1 = concat (map (\<lambda>p. flash_page f ?len (rsv_addr c blk (m * stride) p))
                                          [0..<?n])
            else r \<noteq> 0"
    by blast
  have fit: "pg_sz io + magic_sz env \<le> length mem1"
  proof -
    have "?len \<le> ?n * ?len" using wf(3) by (rule one_plane_fits)
    moreover have "length mem1 = ?n * ?len" using l1 wf(5) by simp
    ultimately show ?thesis using wf(6,7) by linarith
  qed
  have oob: "memrd mem1 (pg_sz io) (magic_sz env) = Some (take (magic_sz env) (drop (pg_sz io) mem1))"
    using fit by (rule memrd_Some)
  have brk: "r \<noteq> 0 \<or> \<not> is_magic env (take (magic_sz env) (drop (pg_sz io) mem1))"
  proof (cases "page_readable f c blk (m * stride)")
    case False
    with res show ?thesis by simp
  next
    case True
    with res have mem1: "mem1 = concat (map (\<lambda>p. flash_page f ?len (rsv_addr c blk (m * stride) p))
                                          [0..<?n])" by simp
    have "[0..<?n] = 0 # [Suc 0..<?n]" using wf(3) by (simp add: upt_conv_Cons)
    then have "mem1 = flash_page f ?len (rsv_addr c blk (m * stride) 0) @
                 concat (map (\<lambda>p. flash_page f ?len (rsv_addr c blk (m * stride) p)) [Suc 0..<?n])"
      using mem1 by simp
    then have "take (magic_sz env) (drop (pg_sz io) mem1) =
                 take (magic_sz env) (drop (pg_size (geometry c))
                   (flash_page f ?len (rsv_addr c blk (m * stride) 0)))"
      using wf(6,7) by simp
    with True stop show ?thesis by (simp add: page_stamped_def)
  qed
  have "scan_pages env lch io blk stride (int (j * stride)) (mem, w) =
          Some (r, int (m * stride), mem1, w1)"
    unfolding jm scan_step [OF ms pgc rd oob] using brk by simp
  moreover have "r = 0 \<longleftrightarrow> \<not> (scanned \<and> \<not> page_readable f c blk (m * stride))"
    using sc res by (auto split: if_splits)
  ultimately show ?case using fr by blast
next
  case (Suc d)
  let ?n = "n_of_planes (geometry c)"
  let ?len = "plane_len (geometry c)"
  let ?ppb = "int (pg_per_blk (geometry c))"
  from Suc(2) have jm: "j < m" by simp
  from Suc(5) jm have here: "page_readable f c blk (j * stride)" "page_stamped env f c blk (j * stride)"
    by simp_all
  have ms: "memset0 mem (buf_sz io) = Some (replicate (buf_sz io) 0)"
    using Suc(3) by (auto simp add: memset0_def memwr_def)
  have "j * stride \<le> m * stride" using jm by simp
  then have "j * stride < 65536" using Suc(8) by linarith
  then have pgc: "nat (int (j * stride) mod 65536) = j * stride" by (rule u16_conv)
  have nf: "\<not> alloc_fails env (h_count (heap w))" using env(2) by simp
  have l0: "length (replicate (buf_sz io) (0 :: byte)) = ?n * ?len" using wf(5) by simp
  from rsv_read_flash [OF env(1) nf wf(1,3,4) l0 Suc(4), of blk "j * stride"] here(1)
  obtain mem1 w1 where
    rd: "app_io_rsv_blk env lch MMGR_READ_PG (pl_vec io) blk (j * stride)
           (replicate (buf_sz io) 0, w) = Some (0, mem1, w1)"
    and l1: "length mem1 = length (replicate (buf_sz io) (0 :: byte))"
    and fr: "media w1 = f" "channels w1 = channels w" "flushed w1 = flushed w"
      "h_live (heap w1) = h_live (heap w)"
    and mem1: "mem1 = concat (map (\<lambda>p. flash_page f ?len (rsv_addr c blk (j * stride) p)) [0..<?n])"
    by auto
  have fit: "pg_sz io + magic_sz env \<le> length mem1"
  proof -
    have "?len \<le> ?n * ?len" using wf(3) by (rule one_plane_fits)
    moreover have "length mem1 = ?n * ?len" using l1 wf(5) by simp
    ultimately show ?thesis using wf(6,7) by linarith
  qed
  have oob: "memrd mem1 (pg_sz io) (magic_sz env) = Some (take (magic_sz env) (drop (pg_sz io) mem1))"
    using fit by (rule memrd_Some)
  have "[0..<?n] = 0 # [Suc 0..<?n]" using wf(3) by (simp add: upt_conv_Cons)
  then have "mem1 = flash_page f ?len (rsv_addr c blk (j * stride) 0) @
               concat (map (\<lambda>p. flash_page f ?len (rsv_addr c blk (j * stride) p)) [Suc 0..<?n])"
    using mem1 by simp
  then have "take (magic_sz env) (drop (pg_sz io) mem1) =
               take (magic_sz env) (drop (pg_size (geometry c))
                 (flash_page f ?len (rsv_addr c blk (j * stride) 0)))"
    using wf(6,7) by simp
  with here(2) have mg: "is_magic env (take (magic_sz env) (drop (pg_sz io) mem1))"
    by (simp add: page_stamped_def)
  have nxt: "int (j * stride) + int stride = int (Suc j * stride)" by simp
  have unf: "scan_pages env lch io blk stride (int (j * stride)) (mem, w) =
               (if int (Suc j * stride) < ?ppb - int stride
                then scan_pages env lch io blk stride (int (Suc j * stride)) (mem1, w1)
                else Some (0, int (Suc j * stride), mem1, w1))"
    unfolding scan_step [OF ms pgc rd oob] nxt using mg wf(2) by simp
  show ?case
  proof (cases "int (Suc j * stride) < ?ppb - int stride")
    case True
    have d: "d = m - Suc j" using Suc(2) by simp
    have a1: "length mem1 = buf_sz io" using l1 by simp
    have a3: "\<forall>i. Suc j \<le> i \<and> i < m \<longrightarrow>
                page_readable f c blk (i * stride) \<and> page_stamped env f c blk (i * stride)"
      using Suc(5) by simp
    have a4: "\<forall>i. Suc j < i \<and> i < m \<longrightarrow> int (i * stride) < ?ppb - int stride"
      using Suc(6) by simp
    have a5: "Suc j \<le> m" using jm by simp
    have a6: "scanned \<longleftrightarrow> (m = Suc j \<or> int (m * stride) < ?ppb - int stride)"
    proof (cases "m = Suc j")
      case eq: True
      with True have "int (m * stride) < ?ppb - int stride" by (simp only:)
      with Suc(9) show ?thesis by blast
    next
      case False
      with Suc(9) jm show ?thesis by blast
    qed
    from Suc(1) [OF d a1 fr(1) a3 a4 a5 Suc(8) a6 Suc(10)]
    show ?thesis
      unfolding unf using True fr by simp
  next
    case False
    have "m = Suc j"
    proof (rule ccontr)
      assume "m \<noteq> Suc j"
      with jm have "Suc j < m" by simp
      with Suc(6) have "int (Suc j * stride) < ?ppb - int stride" by blast
      with False show False by simp
    qed
    have "Suc j \<noteq> j" by simp
    then have "\<not> scanned"
      using Suc(9) False unfolding \<open>m = Suc j\<close> by blast
    moreover have "scan_pages env lch io blk stride (int (j * stride)) (mem, w) =
                     Some (0, int (Suc j * stride), mem1, w1)"
      unfolding unf using False by (simp only: if_False)
    ultimately show ?thesis
      unfolding \<open>m = Suc j\<close> using fr by blast
  qed
qed


lemma current_page_run:
  assumes "submit env = flash_submit" and "\<forall>n. \<not> alloc_fails env n"
    and "ch lch = Some c" and "0 < n_of_planes (geometry c)"
    and "pg_size (geometry c) + magic_sz env \<le> plane_len (geometry c)"
    and "case io_opt of
           Some io \<Rightarrow> io_laid c io
         | None \<Rightarrow> 0 < sec_per_pg (geometry c) \<and>
                   sec_per_pg (geometry c) * n_of_planes (geometry c) \<le> sec_per_pl_pg (geometry c)"
    and "media w = f"
    and "\<forall>i<m. page_readable f c blk (i * stride) \<and> page_stamped env f c blk (i * stride)"
    and "\<forall>i. 0 < i \<and> i < m \<longrightarrow> int (i * stride) < int (pg_per_blk (geometry c)) - int stride"
    and "m * stride < 65536"
    and "scanned \<longleftrightarrow> (m = 0 \<or> int (m * stride) < int (pg_per_blk (geometry c)) - int stride)"
    and "scanned \<longrightarrow>
           \<not> (page_readable f c blk (m * stride) \<and> page_stamped env f c blk (m * stride))"
  shows "\<exists>io' w'.
           app_blk_current_page env lch io_opt blk stride w =
             Some (if scanned \<and> \<not> page_readable f c blk (m * stride) then - 1
                   else int (m * stride),
                   io', w') \<and>
           (io' = None \<longleftrightarrow> io_opt = None)"
proof -
  let ?R = "if scanned \<and> \<not> page_readable f c blk (m * stride) then - 1 else int (m * stride)"
  have p1: "\<forall>i. 0 \<le> i \<and> i < m \<longrightarrow>
              page_readable f c blk (i * stride) \<and> page_stamped env f c blk (i * stride)"
    using assms(8) by simp
  have scan: "\<exists>ret mem' w'.
           scan_pages env lch io blk stride (int (0 * stride)) (buf io, w0)
             = Some (ret, int (m * stride), mem', w') \<and>
           (ret = 0 \<longleftrightarrow> \<not> (scanned \<and> \<not> page_readable f c blk (m * stride))) \<and>
           media w' = f \<and> channels w' = channels w0 \<and> flushed w' = flushed w0 \<and>
           h_live (heap w') = h_live (heap w0)"
    if laid: "io_laid c io" and m0: "media w0 = f" for io and w0 :: "flash world"
  proof -
    from laid have wf: "io_ch io = Some c"
      "\<forall>p<n_of_planes (geometry c). rd (pl_vec io) p = Some (p * plane_len (geometry c))"
      "buf_sz io = n_of_planes (geometry c) * plane_len (geometry c)"
      "pg_sz io = pg_size (geometry c)" "length (buf io) = buf_sz io"
      by (simp_all add: io_laid_def)
    show ?thesis
      by (rule scan_from [OF assms(1,2,3) wf(1) assms(4) wf(2,3,4) assms(5) wf(5) m0 p1 assms(9)
            _ assms(10,11,12)]) simp
  qed
  show ?thesis
  proof (cases io_opt)
    case (Some io)
    with assms(6) have laid: "io_laid c io" by simp
    from scan [OF laid assms(7)] obtain ret mem' w' where
      run: "scan_pages env lch io blk stride (int (0 * stride)) (buf io, w)
              = Some (ret, int (m * stride), mem', w')"
      and ret: "ret = 0 \<longleftrightarrow> \<not> (scanned \<and> \<not> page_readable f c blk (m * stride))"
      by blast
    have "app_blk_current_page env lch io_opt blk stride w =
            Some (if ret = 0 then int (m * stride) else - 1, Some (io\<lparr>buf := mem'\<rparr>), w')"
      using run by (simp add: app_blk_current_page_def Some)
    also have "(if ret = 0 then int (m * stride) else - 1) = ?R" unfolding ret by simp
    finally show ?thesis using Some by simp
  next
    case None
    with assms(6) have geo: "0 < sec_per_pg (geometry c)"
      "sec_per_pg (geometry c) * n_of_planes (geometry c) \<le> sec_per_pl_pg (geometry c)"
      by simp_all
    have nf: "\<forall>j<5 + n_of_planes (geometry c). \<not> alloc_fails env (h_count (heap w) + j)"
      using assms(2) by simp
    from alloc_pg_io_run [OF assms(3) refl nf geo]
    obtain io w0 where
      al: "app_alloc_pg_io env lch w = Some (Some io, w0)" and laid: "io_laid c io"
      and m0: "media w0 = media w"
      and ptr: "data_p io = Suc (h_count (heap w))" "buf_p io = Suc (Suc (h_count (heap w)))"
        "pl_vec_p io = Suc (Suc (Suc (h_count (heap w))))"
        "oob_vec_p io = Suc (Suc (Suc (Suc (h_count (heap w)))))"
        "sec_vec_p io = Suc (Suc (Suc (Suc (Suc (h_count (heap w))))))"
      and rows: "\<forall>q<n_pl io. \<exists>row. rd (sec_vec io) q
              = Some (Suc (Suc (Suc (Suc (Suc (Suc (h_count (heap w))))))) + q, row)"
      and own: "\<forall>j<5 + n_pl io. Suc (h_count (heap w) + j) \<in> set (h_live (heap w0))"
      by (elim exE conjE) (rule that, assumption+)
    from m0 assms(7) have m0': "media w0 = f" by simp
    from scan [OF laid m0'] obtain ret mem' w1 where
      run: "scan_pages env lch io blk stride (int (0 * stride)) (buf io, w0)
              = Some (ret, int (m * stride), mem', w1)"
      and ret: "ret = 0 \<longleftrightarrow> \<not> (scanned \<and> \<not> page_readable f c blk (m * stride))"
      and live: "h_live (heap w1) = h_live (heap w0)"
      by blast
    from own have own1: "\<forall>j<5 + n_pl io. Suc (h_count (heap w) + j) \<in> set (h_live (heap w1))"
      unfolding live .
    from free_pg_io_run [OF ptr rows own1] obtain w2 where
      fr: "app_free_pg_io io w1 = Some w2"
      by blast
    have "app_blk_current_page env lch io_opt blk stride w =
            Some (if ret = 0 then int (m * stride) else - 1, None, w2)"
      using run fr by (simp add: app_blk_current_page_def None al)
    also have "(if ret = 0 then int (m * stride) else - 1) = ?R" unfolding ret by simp
    finally show ?thesis using None by simp
  qed
qed

lemma int_below: "int x < int p - int s \<longleftrightarrow> x + s < p"
  by linarith

text \<open>Claim C1, as the code has it. The media manager is the flash device of the last
  section and no allocation fails; the magic record fits in the out-of-band region of a
  plane; the caller's descriptor is laid out as \<^verbatim>\<open>app_alloc_pg_io\<close> leaves it, or the caller
  passes \<open>NULL\<close> and the geometry is one for which \<^verbatim>\<open>app_alloc_pg_io\<close> lays a descriptor out.

  Let the pages \<open>0, stride, ..., k * stride\<close> of the block (so \<open>k * stride < pg_per_blk\<close>)
  be read without error and carry the stamp, and let page \<open>(k + 1) * stride\<close> not carry it
  or be out of range (\<open>pg_per_blk \<le> (k + 1) * stride\<close>). Then \<^verbatim>\<open>app_blk_current_page\<close> returns
  \<^item> \<open>k * stride\<close>, the last page index at which the stamp matched, when \<open>1 \<le> k\<close> and page
    \<open>(k + 1) * stride\<close> is out of range;
  \<^item> otherwise \<open>(k + 1) * stride\<close>, one stride past the last match; but \<open>-1\<close> if that page is
    read (it is read when \<open>(k + 2) * stride < pg_per_blk\<close>) and its read fails.

  When page \<open>0\<close> does not carry the stamp and its read succeeds, the function returns \<open>0\<close>;
  when the read of page \<open>0\<close> fails, it returns \<open>-1\<close>. The page numbers are below \<open>65536\<close>, the
  range of the \<^verbatim>\<open>uint16_t\<close> parameter of \<^verbatim>\<open>app_io_rsv_blk\<close>.\<close>

theorem blk_current_page_result:
  assumes "submit env = flash_submit" and "\<forall>n. \<not> alloc_fails env n"
    and "ch lch = Some c" and "0 < n_of_planes (geometry c)"
    and "pg_size (geometry c) + magic_sz env \<le> plane_len (geometry c)"
    and "case io_opt of
           Some io \<Rightarrow> io_laid c io
         | None \<Rightarrow> 0 < sec_per_pg (geometry c) \<and>
                   sec_per_pg (geometry c) * n_of_planes (geometry c) \<le> sec_per_pl_pg (geometry c)"
    and "media w = f"
  shows "(\<not> (page_readable f c blk 0 \<and> page_stamped env f c blk 0) \<longrightarrow>
            (\<exists>io' w'. app_blk_current_page env lch io_opt blk stride w =
                         Some (if page_readable f c blk 0 then 0 else - 1, io', w') \<and>
                       (io' = None \<longleftrightarrow> io_opt = None))) \<and>
         ((\<forall>i\<le>k. page_readable f c blk (i * stride) \<and> page_stamped env f c blk (i * stride)) \<and>
          k * stride < pg_per_blk (geometry c) \<and> (k + 1) * stride < 65536 \<and>
          ((k + 1) * stride < pg_per_blk (geometry c)
             \<longrightarrow> \<not> page_stamped env f c blk ((k + 1) * stride)) \<longrightarrow>
            (\<exists>io' w'. app_blk_current_page env lch io_opt blk stride w =
                         Some (if 1 \<le> k \<and> pg_per_blk (geometry c) \<le> (k + 1) * stride
                               then int (k * stride)
                               else if (k + 2) * stride < pg_per_blk (geometry c) \<and>
                                       \<not> page_readable f c blk ((k + 1) * stride)
                                    then - 1
                                    else int ((k + 1) * stride),
                               io', w') \<and>
                       (io' = None \<longleftrightarrow> io_opt = None)))"
proof (intro conjI impI)
  let ?ppb = "pg_per_blk (geometry c)"
  assume blank: "\<not> (page_readable f c blk 0 \<and> page_stamped env f c blk 0)"
  have a8: "\<forall>i<0. page_readable f c blk (i * stride) \<and> page_stamped env f c blk (i * stride)"
    by simp
  have a9: "\<forall>i. 0 < i \<and> i < (0::nat) \<longrightarrow> int (i * stride) < int ?ppb - int stride" by simp
  have a10: "0 * stride < 65536" by simp
  have a11: "True \<longleftrightarrow> ((0::nat) = 0 \<or> int (0 * stride) < int ?ppb - int stride)" by simp
  have a12: "True \<longrightarrow>
               \<not> (page_readable f c blk (0 * stride) \<and> page_stamped env f c blk (0 * stride))"
    using blank by simp
  have R: "(if True \<and> \<not> page_readable f c blk (0 * stride) then - 1 else int (0 * stride))
             = (if page_readable f c blk 0 then 0 else - 1)"
    by simp
  from current_page_run [OF assms a8 a9 a10 a11 a12]
  show "\<exists>io' w'. app_blk_current_page env lch io_opt blk stride w =
                   Some (if page_readable f c blk 0 then 0 else - 1, io', w') \<and>
                 (io' = None \<longleftrightarrow> io_opt = None)"
    unfolding R .
next
  let ?ppb = "pg_per_blk (geometry c)"
  assume "(\<forall>i\<le>k. page_readable f c blk (i * stride) \<and> page_stamped env f c blk (i * stride)) \<and>
          k * stride < ?ppb \<and> (k + 1) * stride < 65536 \<and>
          ((k + 1) * stride < ?ppb \<longrightarrow> \<not> page_stamped env f c blk ((k + 1) * stride))"
  then have st: "\<forall>i\<le>k. page_readable f c blk (i * stride) \<and> page_stamped env f c blk (i * stride)"
    and last: "k * stride < ?ppb" and u16: "(k + 1) * stride < 65536"
    and nxt: "(k + 1) * stride < ?ppb \<longrightarrow> \<not> page_stamped env f c blk ((k + 1) * stride)"
    by blast+
  have below: "int (i * stride) < int ?ppb - int stride" if "i < k" for i
  proof -
    from that have "Suc i \<le> k" by simp
    then have "Suc i * stride \<le> k * stride" by (rule mult_le_mono1)
    with last have "Suc i * stride < ?ppb" by simp
    then have "i * stride + stride < ?ppb" by simp
    then show ?thesis by (simp only: int_below)
  qed
  show "\<exists>io' w'. app_blk_current_page env lch io_opt blk stride w =
                   Some (if 1 \<le> k \<and> ?ppb \<le> (k + 1) * stride
                         then int (k * stride)
                         else if (k + 2) * stride < ?ppb \<and>
                                 \<not> page_readable f c blk ((k + 1) * stride)
                              then - 1
                              else int ((k + 1) * stride),
                         io', w') \<and>
                 (io' = None \<longleftrightarrow> io_opt = None)"
  proof (cases "1 \<le> k \<and> ?ppb \<le> (k + 1) * stride")
    case True
    have a8: "\<forall>i<k. page_readable f c blk (i * stride) \<and> page_stamped env f c blk (i * stride)"
      using st by simp
    have a9: "\<forall>i. 0 < i \<and> i < k \<longrightarrow> int (i * stride) < int ?ppb - int stride"
      using below by simp
    have a10: "k * stride < 65536" using u16 by simp
    have "\<not> int (k * stride) < int ?ppb - int stride"
    proof
      assume "int (k * stride) < int ?ppb - int stride"
      then have "k * stride + stride < ?ppb" by (simp only: int_below)
      then have "(k + 1) * stride < ?ppb" by simp
      with True show False by simp
    qed
    with True have a11: "False \<longleftrightarrow> (k = 0 \<or> int (k * stride) < int ?ppb - int stride)" by simp
    have a12: "False \<longrightarrow>
                 \<not> (page_readable f c blk (k * stride) \<and> page_stamped env f c blk (k * stride))"
      by simp
    have R: "(if False \<and> \<not> page_readable f c blk (k * stride) then - 1 else int (k * stride))
               = (if 1 \<le> k \<and> ?ppb \<le> (k + 1) * stride
                  then int (k * stride)
                  else if (k + 2) * stride < ?ppb \<and>
                          \<not> page_readable f c blk ((k + 1) * stride)
                       then - 1
                       else int ((k + 1) * stride))"
      using True by simp
    from current_page_run [OF assms a8 a9 a10 a11 a12]
    show ?thesis unfolding R .
  next
    case False
    let ?m = "k + 1"
    let ?scanned = "(k + 2) * stride < ?ppb"
    have a8: "\<forall>i<?m. page_readable f c blk (i * stride) \<and> page_stamped env f c blk (i * stride)"
      using st by simp
    have a9: "\<forall>i. 0 < i \<and> i < ?m \<longrightarrow> int (i * stride) < int ?ppb - int stride"
    proof (intro allI impI)
      fix i assume i: "0 < i \<and> i < ?m"
      show "int (i * stride) < int ?ppb - int stride"
      proof (cases "i < k")
        case True
        then show ?thesis by (rule below)
      next
        case ik: False
        with i have "i = k" and "1 \<le> k" by simp_all
        with False have "(k + 1) * stride < ?ppb" by simp
        then have "k * stride + stride < ?ppb" by simp
        then have "int (k * stride) < int ?ppb - int stride" by (simp only: int_below)
        with \<open>i = k\<close> show ?thesis by simp
      qed
    qed
    have sc: "?scanned \<longleftrightarrow> int (?m * stride) < int ?ppb - int stride"
    proof -
      have "(k + 2) * stride = ?m * stride + stride" by simp
      then show ?thesis by (simp only: int_below)
    qed
    then have a11: "?scanned \<longleftrightarrow> (?m = 0 \<or> int (?m * stride) < int ?ppb - int stride)" by simp
    have a12: "?scanned \<longrightarrow>
                 \<not> (page_readable f c blk (?m * stride) \<and> page_stamped env f c blk (?m * stride))"
    proof
      assume "?scanned"
      then have "(k + 1) * stride < ?ppb" by simp
      with nxt show "\<not> (page_readable f c blk (?m * stride) \<and>
                         page_stamped env f c blk (?m * stride))"
        by simp
    qed
    have R: "(if ?scanned \<and> \<not> page_readable f c blk (?m * stride) then - 1
              else int (?m * stride))
               = (if 1 \<le> k \<and> ?ppb \<le> (k + 1) * stride
                  then int (k * stride)
                  else if (k + 2) * stride < ?ppb \<and>
                          \<not> page_readable f c blk ((k + 1) * stride)
                       then - 1
                       else int ((k + 1) * stride))"
      using False by (simp only: if_False)
    from current_page_run [OF assms a8 a9 u16 a11 a12]
    show ?thesis unfolding R [symmetric] .
  qed
qed

lemma ex_stamps:
  "page_readable ex_flash_stamped ex_nvm_channel 1 0"
  "page_stamped ex_env ex_flash_stamped ex_nvm_channel 1 0"
  "page_readable ex_flash_stamped ex_nvm_channel 1 1"
  "\<not> page_stamped ex_env ex_flash_stamped ex_nvm_channel 1 1"
  "page_readable ex_flash ex_nvm_channel 1 0"
  "\<not> page_stamped ex_env ex_flash ex_nvm_channel 1 0"
  "page_readable ex_flash_full ex_nvm_channel 1 pg"
  "page_stamped ex_env ex_flash_full ex_nvm_channel 1 pg"
  by (simp_all add: page_readable_def page_stamped_def ex_flash_stamped_def ex_flash_def
      ex_flash_full_def ex_env_def ex_nvm_channel_def ex_geometry_def rsv_addr_def flash_page_def
      plane_len_def)

lemma ex_bad_page: "\<not> page_readable (ex_flash\<lparr>bad := (\<lambda>a. True)\<rparr>) ex_nvm_channel 1 0"
proof -
  have "(0::nat) < 2" by simp
  then have "\<exists>pl::nat. pl < 2" ..
  then show ?thesis
    by (simp add: page_readable_def ex_nvm_channel_def ex_geometry_def)
qed

lemma ex_io_laid: "io_laid ex_nvm_channel ex_io"
  by (simp add: io_laid_def ex_io_def ex_nvm_channel_def ex_geometry_def plane_len_def rd_def
      less_Suc_eq numeral_2_eq_2)

theorem blk_current_page_result_witness:
  "(\<exists>io' w'. app_blk_current_page ex_env ex_channel (Some ex_io) 1 1
                (ex_world_io\<lparr>media := ex_flash_stamped\<rparr>) = Some (1, io', w')) \<and>
   (\<exists>w'. app_blk_current_page ex_env ex_channel None 1 1
            (ex_world\<lparr>media := ex_flash_full\<rparr>) = Some (3, None, w')) \<and>
   (\<exists>io' w'. app_blk_current_page ex_env ex_channel (Some ex_io) 1 1 ex_world_io
                = Some (0, io', w')) \<and>
   (\<exists>io' w'. app_blk_current_page ex_env ex_channel (Some ex_io) 1 1
                (ex_world_io\<lparr>media := ex_flash\<lparr>bad := (\<lambda>a. True)\<rparr>\<rparr>) = Some (- 1, io', w'))"
proof -
  have 1: "submit ex_env = flash_submit" "\<forall>n. \<not> alloc_fails ex_env n"
    by (simp_all add: ex_env_def)
  have 2: "ch ex_channel = Some ex_nvm_channel" "0 < n_of_planes (geometry ex_nvm_channel)"
    "pg_size (geometry ex_nvm_channel) + magic_sz ex_env \<le> plane_len (geometry ex_nvm_channel)"
    by (simp_all add: ex_channel_def ex_nvm_channel_def ex_geometry_def plane_len_def ex_env_def)
  have own: "case Some ex_io of
               Some io \<Rightarrow> io_laid ex_nvm_channel io
             | None \<Rightarrow> 0 < sec_per_pg (geometry ex_nvm_channel) \<and>
                       sec_per_pg (geometry ex_nvm_channel) * n_of_planes (geometry ex_nvm_channel)
                         \<le> sec_per_pl_pg (geometry ex_nvm_channel)"
    using ex_io_laid by simp
  have null: "case None of
               Some io \<Rightarrow> io_laid ex_nvm_channel io
             | None \<Rightarrow> 0 < sec_per_pg (geometry ex_nvm_channel) \<and>
                       sec_per_pg (geometry ex_nvm_channel) * n_of_planes (geometry ex_nvm_channel)
                         \<le> sec_per_pl_pg (geometry ex_nvm_channel)"
    by (simp add: ex_nvm_channel_def ex_geometry_def)
  have ppb: "pg_per_blk (geometry ex_nvm_channel) = 4"
    by (simp add: ex_nvm_channel_def ex_geometry_def)
  have m1: "media (ex_world_io\<lparr>media := ex_flash_stamped\<rparr>) = ex_flash_stamped" by simp
  have m2: "media (ex_world\<lparr>media := ex_flash_full\<rparr>) = ex_flash_full" by simp
  have m3: "media ex_world_io = ex_flash" by (simp add: ex_world_io_def ex_world_def)
  have m4: "media (ex_world_io\<lparr>media := ex_flash\<lparr>bad := (\<lambda>a. True)\<rparr>\<rparr>)
              = ex_flash\<lparr>bad := (\<lambda>a. True)\<rparr>" by simp
  have h1: "(\<forall>i\<le>0. page_readable ex_flash_stamped ex_nvm_channel 1 (i * 1) \<and>
                    page_stamped ex_env ex_flash_stamped ex_nvm_channel 1 (i * 1)) \<and>
            0 * 1 < pg_per_blk (geometry ex_nvm_channel) \<and> (0 + 1) * 1 < (65536::nat) \<and>
            ((0 + 1) * 1 < pg_per_blk (geometry ex_nvm_channel)
               \<longrightarrow> \<not> page_stamped ex_env ex_flash_stamped ex_nvm_channel 1 ((0 + 1) * 1))"
    using ex_stamps(1,2,4) by (simp add: ppb)
  have h2: "(\<forall>i\<le>3. page_readable ex_flash_full ex_nvm_channel 1 (i * 1) \<and>
                    page_stamped ex_env ex_flash_full ex_nvm_channel 1 (i * 1)) \<and>
            3 * 1 < pg_per_blk (geometry ex_nvm_channel) \<and> (3 + 1) * 1 < (65536::nat) \<and>
            ((3 + 1) * 1 < pg_per_blk (geometry ex_nvm_channel)
               \<longrightarrow> \<not> page_stamped ex_env ex_flash_full ex_nvm_channel 1 ((3 + 1) * 1))"
    using ex_stamps(7,8) by (simp add: ppb)
  have h3: "\<not> (page_readable ex_flash ex_nvm_channel 1 0 \<and>
               page_stamped ex_env ex_flash ex_nvm_channel 1 0)"
    using ex_stamps(6) by simp
  have h4: "\<not> (page_readable (ex_flash\<lparr>bad := (\<lambda>a. True)\<rparr>) ex_nvm_channel 1 0 \<and>
               page_stamped ex_env (ex_flash\<lparr>bad := (\<lambda>a. True)\<rparr>) ex_nvm_channel 1 0)"
    using ex_bad_page by simp
  from blk_current_page_result [OF 1 2 own m1, of 1 1 0, THEN conjunct2, rule_format, OF h1]
  have w1: "\<exists>io' w'. app_blk_current_page ex_env ex_channel (Some ex_io) 1 1
                (ex_world_io\<lparr>media := ex_flash_stamped\<rparr>) = Some (1, io', w')"
    using ex_stamps(3) by (auto simp add: ppb)
  from blk_current_page_result [OF 1 2 null m2, of 1 1 3, THEN conjunct2, rule_format, OF h2]
  have w2: "\<exists>w'. app_blk_current_page ex_env ex_channel None 1 1
            (ex_world\<lparr>media := ex_flash_full\<rparr>) = Some (3, None, w')"
    by (auto simp add: ppb)
  from blk_current_page_result [OF 1 2 own m3, of 1 1 0, THEN conjunct1, rule_format, OF h3]
  have w3: "\<exists>io' w'. app_blk_current_page ex_env ex_channel (Some ex_io) 1 1 ex_world_io
                = Some (0, io', w')"
    using ex_stamps(5) by auto
  from blk_current_page_result [OF 1 2 own m4, of 1 1 0, THEN conjunct1, rule_format, OF h4]
  have w4: "\<exists>io' w'. app_blk_current_page ex_env ex_channel (Some ex_io) 1 1
                (ex_world_io\<lparr>media := ex_flash\<lparr>bad := (\<lambda>a. True)\<rparr>\<rparr>) = Some (- 1, io', w')"
    using ex_bad_page by auto
  from w1 w2 w3 w4 show ?thesis by blast
qed

lemma ex_scan_stamped:
  "map_option fst (app_blk_current_page ex_env ex_channel (Some ex_io) 1 1
                     (ex_world_io\<lparr>media := ex_flash_stamped\<rparr>)) = Some 1"
  by code_simp

lemma ex_scan_blank:
  "map_option fst (app_blk_current_page ex_env ex_channel (Some ex_io) 1 1 ex_world_io) = Some 0"
  by code_simp

lemma ex_scan_wide:
  "map_option fst (app_blk_current_page ex_env ex_channel (Some ex_io) 1 4
                     (ex_world_io\<lparr>media := ex_flash_stamped\<rparr>)) = Some 4"
  by code_simp

text \<open>The claim as the specification words it fails in three ways. The block has four
  pages. With the stamp on page \<open>0\<close> only and stride \<open>1\<close> (so \<open>k = 0\<close>, and page \<open>1\<close> in
  range without the stamp), the specification promises \<open>k * stride = 0\<close> and the code
  returns \<open>1\<close>. With no stamp on page \<open>0\<close> and a read that succeeds, the specification
  promises not-found (\<open>-1\<close>) and the code returns \<open>0\<close>. With the stamp on page \<open>0\<close> and
  stride \<open>4\<close> (so \<open>k = 0\<close>, and page \<open>4\<close> out of range), the specification promises \<open>0\<close> and
  the code returns \<open>4\<close>.\<close>

theorem blk_current_page_counterexample:
  "page_readable ex_flash_stamped ex_nvm_channel 1 0 \<and>
   page_stamped ex_env ex_flash_stamped ex_nvm_channel 1 0 \<and>
   page_readable ex_flash_stamped ex_nvm_channel 1 1 \<and>
   \<not> page_stamped ex_env ex_flash_stamped ex_nvm_channel 1 1 \<and>
   map_option fst (app_blk_current_page ex_env ex_channel (Some ex_io) 1 1
                     (ex_world_io\<lparr>media := ex_flash_stamped\<rparr>)) = Some 1 \<and>
   page_readable ex_flash ex_nvm_channel 1 0 \<and>
   \<not> page_stamped ex_env ex_flash ex_nvm_channel 1 0 \<and>
   media ex_world_io = ex_flash \<and>
   map_option fst (app_blk_current_page ex_env ex_channel (Some ex_io) 1 1 ex_world_io) = Some 0 \<and>
   pg_per_blk (geometry ex_nvm_channel) = 4 \<and>
   map_option fst (app_blk_current_page ex_env ex_channel (Some ex_io) 1 4
                     (ex_world_io\<lparr>media := ex_flash_stamped\<rparr>)) = Some 4"
  using ex_stamps(1-6) ex_scan_stamped ex_scan_blank ex_scan_wide
  by (simp add: ex_world_io_def ex_world_def ex_nvm_channel_def ex_geometry_def)
subsection \<open>Table transfers on an ideal flash device\<close>











lemma xfer_addr_pg [simp]:
  "xfer_addr type c (ppa\<lparr>g_pg := x\<rparr>) pg p = xfer_addr type c ppa pg p"
  by (simp add: xfer_addr_def)

lemma xfer_addr_fields [simp]:
  "g_pl (xfer_addr type c ppa pg p) = p" "g_pg (xfer_addr type c ppa pg p) = pg"
  by (simp_all add: xfer_addr_def)



lemma xfer_pages_store:
  assumes "xfer_pages env io pgs epp esz dir rsv start loc i (st, e, mem, user, w)
             = Some (r, st', e', mem', user', w')"
  shows "length st' = length st \<and> (\<forall>a. a \<noteq> loc \<longrightarrow> st' ! a = st ! a) \<and>
         (\<exists>pg. st' ! loc = (st ! loc)\<lparr>g_pg := pg\<rparr>)"
  using assms
proof (induction "pgs - i" arbitrary: i st e mem user w)
  case 0
  then have "xfer_pages env io pgs epp esz dir rsv start loc i (st, e, mem, user, w)
               = Some (0, st, e, mem, user, w)"
    by (subst xfer_pages.simps) simp
  with 0(2) have "st' = st" by simp
  moreover have "st ! loc = (st ! loc)\<lparr>g_pg := g_pg (st ! loc)\<rparr>" by simp
  ultimately show ?case by blast
next
  case (Suc d)
  let ?ppa = "(st ! loc)\<lparr>g_pg := start + i\<rparr>"
  let ?st1 = "st[loc := ?ppa]"
  from Suc(2) have lt: "i < pgs" and d: "d = pgs - Suc i" by simp_all
  have in_store: "loc < length st"
  proof (rule ccontr)
    assume "\<not> loc < length st"
    with lt Suc.prems show False by (subst (asm) xfer_pages.simps) simp
  qed
  have here: "length ?st1 = length st \<and> (\<forall>a. a \<noteq> loc \<longrightarrow> ?st1 ! a = st ! a) \<and>
              (\<exists>pg. ?st1 ! loc = (st ! loc)\<lparr>g_pg := pg\<rparr>)"
    using in_store by auto
  from Suc.prems lt in_store
  have "st' = ?st1 \<or>
        (\<exists>e1 mem1 user1 w1.
           xfer_pages env io pgs epp esz dir rsv start loc (Suc i) (?st1, e1, mem1, user1, w1)
             = Some (r, st', e', mem', user', w'))"
    by (subst (asm) xfer_pages.simps)
       (auto simp add: Let_def split: if_splits option.splits prod.splits)
  then show ?case
  proof
    assume "st' = ?st1"
    with here show ?thesis by simp
  next
    assume "\<exists>e1 mem1 user1 w1.
           xfer_pages env io pgs epp esz dir rsv start loc (Suc i) (?st1, e1, mem1, user1, w1)
             = Some (r, st', e', mem', user', w')"
    then obtain e1 mem1 user1 w1 where
      "xfer_pages env io pgs epp esz dir rsv start loc (Suc i) (?st1, e1, mem1, user1, w1)
         = Some (r, st', e', mem', user', w')"
      by blast
    from Suc(1) [OF d this]
    have l: "length st' = length ?st1" and o: "\<forall>a. a \<noteq> loc \<longrightarrow> st' ! a = ?st1 ! a"
      and c: "\<exists>pg. st' ! loc = (?st1 ! loc)\<lparr>g_pg := pg\<rparr>"
      by blast+
    from c in_store have "\<exists>pg. st' ! loc = (st ! loc)\<lparr>g_pg := pg\<rparr>" by simp
    with l o show ?thesis by simp
  qed
qed




subsection \<open>Sequential table transfer\<close>

text \<open>Claim C10. Whatever status \<^verbatim>\<open>app_nvm_seq_transfer\<close> returns, every address structure
  that exists at the call, the caller's \<^verbatim>\<open>*ppa\<close> among them, is on return what it was at
  the call: the page loop writes the page number of each iteration into the local copy
  \<^verbatim>\<open>ppa_io\<close> only, and the copy differs from \<^verbatim>\<open>*ppa\<close> in nothing but the page number. (The
  witness shows a run over two pages that returns \<open>0\<close> and a run that returns \<open>-1\<close> at the
  second page; both leave the caller's page number at \<open>2\<close> while the copy ends at \<open>3\<close>.)\<close>

theorem seq_transfer_keeps_ppa:
  assumes "app_nvm_seq_transfer env io st ppa user_buf pgs ent_per_pg ent_left entry_sz dir
             reserved w = Some x"
  shows "x_structs x = st \<and> x_structs x ! ppa = st ! ppa \<and>
         (\<exists>pg. x_ppa_io x = (st ! ppa)\<lparr>g_pg := pg\<rparr>)"
proof -
  let ?loc = "length st"
  let ?st0 = "st @ [st ! ppa]"
  from assms have valid: "ppa < length st"
    by (simp add: app_nvm_seq_transfer_def split: if_splits)
  with assms obtain ret st' left' mem' user' w' where
    run: "xfer_pages env io pgs ent_per_pg entry_sz dir reserved (g_pg (?st0 ! ?loc)) ?loc 0
            (?st0, ent_left, buf io, user_buf, w) = Some (ret, st', left', mem', user', w')"
    and x: "x = \<lparr>x_ret = ret, x_structs = take ?loc st', x_ppa_io = st' ! ?loc,
                 x_io = io\<lparr>buf := mem'\<rparr>, x_user = user', x_world = w'\<rparr>"
    by (auto simp add: app_nvm_seq_transfer_def Let_def split: option.splits)
  from xfer_pages_store [OF run]
  have len: "length st' = length ?st0"
    and others: "\<forall>a. a \<noteq> ?loc \<longrightarrow> st' ! a = ?st0 ! a"
    and copy: "\<exists>pg. st' ! ?loc = (?st0 ! ?loc)\<lparr>g_pg := pg\<rparr>"
    by blast+
  have "take ?loc st' = st"
  proof (rule nth_equalityI)
    show "length (take ?loc st') = length st" using len by simp
  next
    fix a assume "a < length (take ?loc st')"
    then have a: "a < length st" by simp
    then have "take ?loc st' ! a = st' ! a" by simp
    also have "\<dots> = ?st0 ! a" using others a by simp
    also have "\<dots> = st ! a" using a by (simp add: nth_append)
    finally show "take ?loc st' ! a = st ! a" .
  qed
  moreover from copy have "\<exists>pg. st' ! ?loc = (st ! ppa)\<lparr>g_pg := pg\<rparr>" by simp
  ultimately show ?thesis by (simp add: x)
qed

lemma ex_transfer_runs:
  "(case app_nvm_seq_transfer ex_env ex_io [ex_ppa] 0 [1, 2, 3, 4, 5, 6, 7, 8, 9, 10] 2 4 5 2
           APP_TRANS_TO_NVM APP_IO_NORMAL ex_world_io of
      None \<Rightarrow> False
    | Some x \<Rightarrow> x_ret x = 0 \<and> g_pg (x_ppa_io x) = 3)"
  by code_simp

lemma ex_transfer_fails:
  "(case app_nvm_seq_transfer ex_env ex_io [ex_ppa] 0 [1, 2, 3, 4, 5, 6, 7, 8, 9, 10] 2 4 5 2
           APP_TRANS_TO_NVM APP_IO_NORMAL
           (ex_world_io\<lparr>media := ex_flash\<lparr>bad := (\<lambda>a. g_pg a = 3)\<rparr>\<rparr>) of
      None \<Rightarrow> False
    | Some x \<Rightarrow> x_ret x = - 1 \<and> g_pg (x_ppa_io x) = 3)"
  by code_simp

theorem seq_transfer_keeps_ppa_witness:
  "\<exists>x y. app_nvm_seq_transfer ex_env ex_io [ex_ppa] 0 [1, 2, 3, 4, 5, 6, 7, 8, 9, 10] 2 4 5 2
           APP_TRANS_TO_NVM APP_IO_NORMAL ex_world_io = Some x \<and>
        x_ret x = 0 \<and> x_structs x = [ex_ppa] \<and> g_pg (x_structs x ! 0) = 2 \<and>
        g_pg (x_ppa_io x) = 3 \<and>
        app_nvm_seq_transfer ex_env ex_io [ex_ppa] 0 [1, 2, 3, 4, 5, 6, 7, 8, 9, 10] 2 4 5 2
           APP_TRANS_TO_NVM APP_IO_NORMAL
           (ex_world_io\<lparr>media := ex_flash\<lparr>bad := (\<lambda>a. g_pg a = 3)\<rparr>\<rparr>) = Some y \<and>
        x_ret y = - 1 \<and> x_structs y = [ex_ppa] \<and> g_pg (x_structs y ! 0) = 2 \<and>
        g_pg (x_ppa_io y) = 3"
proof -
  from ex_transfer_runs obtain x where
    run: "app_nvm_seq_transfer ex_env ex_io [ex_ppa] 0 [1, 2, 3, 4, 5, 6, 7, 8, 9, 10] 2 4 5 2
            APP_TRANS_TO_NVM APP_IO_NORMAL ex_world_io = Some x"
    and r: "x_ret x = 0" "g_pg (x_ppa_io x) = 3"
    by (auto split: option.splits)
  from ex_transfer_fails obtain y where
    fail: "app_nvm_seq_transfer ex_env ex_io [ex_ppa] 0 [1, 2, 3, 4, 5, 6, 7, 8, 9, 10] 2 4 5 2
            APP_TRANS_TO_NVM APP_IO_NORMAL
            (ex_world_io\<lparr>media := ex_flash\<lparr>bad := (\<lambda>a. g_pg a = 3)\<rparr>\<rparr>) = Some y"
    and s: "x_ret y = - 1" "g_pg (x_ppa_io y) = 3"
    by (auto split: option.splits)
  from seq_transfer_keeps_ppa [OF run] have kx: "x_structs x = [ex_ppa]" by simp
  from seq_transfer_keeps_ppa [OF fail] have ky: "x_structs y = [ex_ppa]" by simp
  have "g_pg ex_ppa = 2" by (simp add: ex_ppa_def)
  with run fail r s kx ky show ?thesis by simp
qed





end
